theory Spec2Isabelle
  imports Complex_Main
begin

section \<open>Common data\<close>

text \<open>
  Python floats are modelled as real numbers: Julian dates and state components are only
  stored, compared and subtracted, never rounded on purpose by the scripts. Python
  exceptions are values of \<open>exn\<close>; a function that may raise returns \<open>exn + 'a\<close>
  with \<open>Inl\<close> for the raised exception. Times of day (\<open>datetime\<close> values with whole
  seconds in UTC) are whole seconds, an \<open>int\<close>.
\<close>

datatype exn =
    RuntimeError string
  | StartTooEarly int string
  | ValueError string
  | OtherError string

fun message :: "exn \<Rightarrow> string" where
  "message (RuntimeError m) = m"
| "message (StartTooEarly d m) = m"
| "message (ValueError m) = m"
| "message (OtherError m) = m"

section \<open>ISS generator: the propagation loop of \<open>main\<close> (generate\_iss\_ephemeris.py)\<close>

text \<open>
  One propagation instant: its Julian date and what \<open>sat.sgp4\<close> returned for it, the
  error code \<open>e\<close>, the position \<open>r\<close> and the velocity \<open>v\<close>.
\<close>

record iss_sample =
  s_jd :: real
  s_e :: int
  s_r :: "real \<times> real \<times> real"
  s_v :: "real \<times> real \<times> real"

text \<open>Python's \<open>pv[-6:]\<close>: the last six elements, or all of them when there are fewer.\<close>

definition last6 :: "'a list \<Rightarrow> 'a list" where
  "last6 pv = drop (length pv - 6) pv"

definition state6 :: "iss_sample \<Rightarrow> real list" where
  "state6 s = (case (s_r s, s_v s) of ((r0, r1, r2), (v0, v1, v2)) \<Rightarrow> [r0, r1, r2, v0, v1, v2])"

text \<open>The body of \<open>for dt in samples_dt\<close>, on the pair \<open>(t_jd, pv)\<close>.\<close>

definition iss_step :: "real list \<times> real list \<Rightarrow> iss_sample \<Rightarrow> real list \<times> real list" where
  "iss_step st s =
     (case st of (t_jd, pv) \<Rightarrow>
        let t_jd' = t_jd @ [s_jd s] in
        if s_e s \<noteq> 0 then
          (if pv \<noteq> [] then (t_jd', pv @ last6 pv)
           else (t_jd', pv @ [0, 0, 0, 0, 0, 0]))
        else (t_jd', pv @ state6 s))"

fun iss_loop :: "real list \<times> real list \<Rightarrow> iss_sample list \<Rightarrow> real list \<times> real list" where
  "iss_loop st [] = st"
| "iss_loop st (s # ss) = iss_loop (iss_step st s) ss"

definition iss_main :: "iss_sample list \<Rightarrow> real list \<times> real list" where
  "iss_main samples = iss_loop ([], []) samples"

text \<open>The six values stored for the sample with index \<open>i\<close>.\<close>

definition block6 :: "'a list \<Rightarrow> nat \<Rightarrow> 'a list" where
  "block6 pv i = take 6 (drop (6 * i) pv)"

text \<open>
  What the loop stores for the sample with index \<open>n\<close>, given the values \<open>pv\<close> stored
  before it: the previous six values (six zeros for the first sample) when the
  propagation failed, the propagated state otherwise.
\<close>

definition fill6 :: "real list \<Rightarrow> nat \<Rightarrow> iss_sample \<Rightarrow> real list" where
  "fill6 pv n s = (if s_e s \<noteq> 0 then (if n = 0 then [0, 0, 0, 0, 0, 0] else block6 pv (n - 1)) else state6 s)"

text \<open>A run of three instants: a failure, a success, a failure.\<close>

definition iss_example :: "iss_sample list" where
  "iss_example =
     [\<lparr>s_jd = 2, s_e = 1, s_r = (0, 0, 0), s_v = (0, 0, 0)\<rparr>,
      \<lparr>s_jd = 3, s_e = 0, s_r = (1, 2, 3), s_v = (4, 5, 6)\<rparr>,
      \<lparr>s_jd = 4, s_e = 6, s_r = (9, 9, 9), s_v = (9, 9, 9)\<rparr>]"

section \<open>Single-window request: \<open>request_json\<close>\<close>

text \<open>
  The transport is an oracle: \<open>get i\<close> is what the attempt with loop index \<open>i\<close> does,
  \<open>Inl m\<close> when \<open>requests.get\<close>, \<open>raise_for_status\<close> or \<open>r.json()\<close> raises an
  exception whose text is \<open>m\<close>, \<open>Inr j\<close> when it delivers the JSON value \<open>j\<close>.
  The result records the number of attempts made and the delays slept, in order.
\<close>

record 'j req_outcome =
  attempts :: nat
  sleeps :: "real list"
  result :: "exn + 'j"

definition RETRIES :: nat where
  "RETRIES = 5"

definition BACKOFF_S_juno :: real where
  "BACKOFF_S_juno = 18 / 10"

definition BACKOFF_S_bennu :: real where
  "BACKOFF_S_bennu = 2"

text \<open>\<open>f"{last}"\<close>: the text of the last exception, \<open>None\<close> when there was none.\<close>

definition str_last :: "string option \<Rightarrow> string" where
  "str_last e = (case e of None \<Rightarrow> ''None'' | Some m \<Rightarrow> m)"

text \<open>
  generate\_ephemeris\_juno.py: \<open>for i in range(RETRIES)\<close>, with the \<open>break\<close> on the last
  index before the sleep, and the \<open>raise\<close> after the loop.
\<close>

fun request_json_juno_loop ::
  "(nat \<Rightarrow> string + 'j) \<Rightarrow> nat list \<Rightarrow> string option \<Rightarrow> nat \<Rightarrow> real list \<Rightarrow> 'j req_outcome" where
  "request_json_juno_loop get [] le n sl =
     \<lparr>attempts = n, sleeps = sl,
      result = Inl (RuntimeError (''Horizons request failed: '' @ str_last le))\<rparr>"
| "request_json_juno_loop get (i # is) le n sl =
     (case get i of
        Inr j \<Rightarrow> \<lparr>attempts = Suc n, sleeps = sl, result = Inr j\<rparr>
      | Inl e \<Rightarrow>
          if i = RETRIES - 1
          then \<lparr>attempts = Suc n, sleeps = sl,
                result = Inl (RuntimeError (''Horizons request failed: '' @ str_last (Some e)))\<rparr>
          else request_json_juno_loop get is (Some e) (Suc n) (sl @ [BACKOFF_S_juno * 2 ^ i]))"

definition request_json_juno :: "(nat \<Rightarrow> string + 'j) \<Rightarrow> 'j req_outcome" where
  "request_json_juno get = request_json_juno_loop get [0..<RETRIES] None 0 []"

text \<open>
  generate\_ephemeris\_bennu.py: the sleep follows every failed attempt, the last one too.
\<close>

fun request_json_bennu_loop ::
  "(nat \<Rightarrow> string + 'j) \<Rightarrow> nat list \<Rightarrow> string option \<Rightarrow> nat \<Rightarrow> real list \<Rightarrow> 'j req_outcome" where
  "request_json_bennu_loop get [] le n sl =
     \<lparr>attempts = n, sleeps = sl,
      result = Inl (RuntimeError (''Horizons request failed after 5 retries: '' @ str_last le))\<rparr>"
| "request_json_bennu_loop get (i # is) le n sl =
     (case get i of
        Inr j \<Rightarrow> \<lparr>attempts = Suc n, sleeps = sl, result = Inr j\<rparr>
      | Inl e \<Rightarrow>
          request_json_bennu_loop get is (Some e) (Suc n) (sl @ [BACKOFF_S_bennu * (real i + 1)]))"

definition request_json_bennu :: "(nat \<Rightarrow> string + 'j) \<Rightarrow> 'j req_outcome" where
  "request_json_bennu get = request_json_bennu_loop get [0..<RETRIES] None 0 []"

section \<open>Grid validation in \<open>main\<close>\<close>

text \<open>The tolerance \<open>1e-10\<close>, in days.\<close>

definition TOL :: real where
  "TOL = 1 / 10 ^ 10"

text \<open>
  generate\_ephemeris\_juno.py, the \<open>else\<close> branch of \<open>if t_ref is None\<close>: the
  length test, then \<open>for a, b in zip(t, t_ref)\<close>.
\<close>

fun grid_pairs :: "string \<Rightarrow> (real \<times> real) list \<Rightarrow> exn + unit" where
  "grid_pairs msg [] = Inr ()"
| "grid_pairs msg ((a, b) # ps) =
     (if \<bar>a - b\<bar> > TOL then Inl (RuntimeError msg) else grid_pairs msg ps)"

definition grid_check_juno :: "string \<Rightarrow> real list \<Rightarrow> real list \<Rightarrow> exn + unit" where
  "grid_check_juno name t t_ref =
     (if length t \<noteq> length t_ref then Inl (RuntimeError (''Time grid mismatch: '' @ name))
      else grid_pairs (''Time grid mismatch: '' @ name) (zip t t_ref))"

text \<open>generate\_ephemeris\_bennu.py: the same test, the message worded differently.\<close>

definition grid_check_bennu :: "string \<Rightarrow> real list \<Rightarrow> real list \<Rightarrow> exn + unit" where
  "grid_check_bennu name t t_ref =
     (if length t \<noteq> length t_ref then Inl (RuntimeError (''Time grid mismatch for '' @ name))
      else grid_pairs (''Time grid mismatch for '' @ name) (zip t t_ref))"

text \<open>
  Ephemeris/scripts/generate\_ephemeris.py: \<open>elif len(t_jd) != len(t_ref)\<close> is the whole
  test, and the message is a constant.
\<close>

definition grid_check_voyager :: "string \<Rightarrow> real list \<Rightarrow> real list \<Rightarrow> exn + unit" where
  "grid_check_voyager name t t_ref =
     (if length t \<noteq> length t_ref then Inl (RuntimeError ''Time grid mismatch in multi ephemeris.'')
      else Inr ())"

text \<open>
  The loop \<open>for name, spkid in MAJOR_BODIES\<close> of \<open>main\<close>. \<open>fetch spkid\<close> is the call
  of \<open>horizons_vectors_chunked\<close> for that body (an exception it raises leaves \<open>main\<close>);
  the first component of the result lists the bodies fetched, in order. \<open>check\<close> is
  the grid test of the script. The signature bookkeeping of the loop plays no part in
  the validation and is left out.
\<close>

record grid_state =
  t_ref :: "real list option"
  objects :: "int \<rightharpoonup> string \<times> real list"

definition grid_init :: grid_state where
  "grid_init = \<lparr>t_ref = None, objects = Map.empty\<rparr>"

fun main_bodies ::
  "(string \<Rightarrow> real list \<Rightarrow> real list \<Rightarrow> exn + unit) \<Rightarrow> (int \<Rightarrow> exn + real list \<times> real list) \<Rightarrow>
   (string \<times> int) list \<Rightarrow> int list \<Rightarrow> grid_state \<Rightarrow> int list \<times> (exn + grid_state)" where
  "main_bodies check fetch [] tr st = (tr, Inr st)"
| "main_bodies check fetch ((name, spkid) # bs) tr st =
     (case fetch spkid of
        Inl e \<Rightarrow> (tr @ [spkid], Inl e)
      | Inr (t, pv) \<Rightarrow>
          (case t_ref st of
             None \<Rightarrow>
               main_bodies check fetch bs (tr @ [spkid])
                 (st\<lparr>t_ref := Some t, objects := (objects st)(spkid \<mapsto> (name, pv))\<rparr>)
           | Some r \<Rightarrow>
               (case check name t r of
                  Inl e \<Rightarrow> (tr @ [spkid], Inl e)
                | Inr u \<Rightarrow>
                    main_bodies check fetch bs (tr @ [spkid])
                      (st\<lparr>objects := (objects st)(spkid \<mapsto> (name, pv))\<rparr>))))"

definition MAJOR_BODIES :: "(string \<times> int) list" where
  "MAJOR_BODIES =
     [(''Sun'', 10), (''Mercury'', 199), (''Venus'', 299), (''Earth'', 399), (''Mars'', 499),
      (''Jupiter'', 599), (''Saturn'', 699), (''Uranus'', 799), (''Neptune'', 899)]"

section \<open>Stitching a sub-window onto the accumulated series\<close>

text \<open>
  generate\_ephemeris\_juno.py (and, word for word, generate\_ephemeris\_explorer\_one.py):
  \<open>while idx0 < len(t) and t[idx0] <= last + 1e-10: idx0 += 1\<close>.
\<close>

function skip_idx :: "real list \<Rightarrow> real \<Rightarrow> nat \<Rightarrow> nat" where
  "skip_idx t lst idx0 =
     (if idx0 < length t \<and> t ! idx0 \<le> lst + TOL then skip_idx t lst (idx0 + 1) else idx0)"
  by pat_completeness auto
termination
  by (relation "measure (\<lambda>(t, lst, idx0). length t - idx0)") auto

text \<open>
  The body of the window loop after a successful fetch: \<open>if not all_t\<close> takes the
  window as it is, otherwise the leading samples are skipped and, when something is
  left, the rest is appended.
\<close>

definition stitch_juno ::
  "real list \<times> real list \<Rightarrow> real list \<times> real list \<Rightarrow> real list \<times> real list" where
  "stitch_juno acc w =
     (case (acc, w) of ((all_t, all_pv), (t, pv)) \<Rightarrow>
        if all_t = [] then (t, pv)
        else
          let lst = last all_t; idx0 = skip_idx t lst 0 in
          if idx0 < length t then (all_t @ drop idx0 t, all_pv @ drop (idx0 * 6) pv)
          else (all_t, all_pv))"

text \<open>
  generate\_ephemeris\_bennu.py:
  \<open>if t_all and t and abs(t[0] - t_all[-1]) < 1e-10: t = t[1:]; pv = pv[6:]\<close>, then both
  lists are extended.
\<close>

definition stitch_bennu ::
  "real list \<times> real list \<Rightarrow> real list \<times> real list \<Rightarrow> real list \<times> real list" where
  "stitch_bennu acc w =
     (case (acc, w) of ((t_all, pv_all), (t, pv)) \<Rightarrow>
        if t_all \<noteq> [] \<and> t \<noteq> [] \<and> \<bar>hd t - last t_all\<bar> < TOL
        then (t_all @ drop 1 t, pv_all @ drop 6 pv)
        else (t_all @ t, pv_all @ pv))"

text \<open>A run of \<open>main\<close> in which the second body comes back on a shifted grid.\<close>

definition fetch_example :: "int \<Rightarrow> exn + real list \<times> real list" where
  "fetch_example spkid =
     (if spkid = 199 then Inr ([24588495 / 10, 24588506 / 10], [0, 0, 0, 0, 0, 0, 0, 0, 0, 0, 0, 0])
      else Inr ([24588495 / 10, 24588505 / 10], [1, 1, 1, 1, 1, 1, 1, 1, 1, 1, 1, 1]))"

section \<open>The guard at the end of \<open>parse_vectors\<close>\<close>

text \<open>
  \<open>parse_vectors\<close> ends with a guard on the rows it has read from the block: fewer than
  two timestamps, or a vector list that is not six times as long, raise an error whose
  message shows the first 25 lines of the block.
\<close>

definition too_few :: "real list \<Rightarrow> real list \<Rightarrow> bool" where
  "too_few t pv \<longleftrightarrow> length t < 2 \<or> length pv \<noteq> length t * 6"

definition parse_guard :: "string \<Rightarrow> real list \<times> real list \<Rightarrow> exn + real list \<times> real list" where
  "parse_guard preview rows =
     (case rows of (t, pv) \<Rightarrow>
        if too_few t pv then Inl (RuntimeError (''Parsed too few samples. Preview:'' @ CHR 0x0A # preview))
        else Inr (t, pv))"

section \<open>Python strings\<close>

text \<open>
  A Python \<open>str\<close> is modelled as the list of its code points, all of them below 256
  (text outside Latin-1 is not modelled). The functions below are the library methods
  the scripts call, restricted to that range.
\<close>

text \<open>\<open>str.isspace\<close> on one character, which is also what \<open>strip()\<close> and \<open>split()\<close> remove.\<close>

definition py_spaces :: "char list" where
  "py_spaces = [CHR 0x09, CHR 0x0A, CHR 0x0B, CHR 0x0C, CHR 0x0D, CHR 0x1C, CHR 0x1D, CHR 0x1E,
                CHR 0x1F, CHR 0x20, CHR 0x85, CHR 0xA0]"

definition is_space :: "char \<Rightarrow> bool" where
  "is_space c \<longleftrightarrow> c \<in> set py_spaces"

definition is_digit :: "char \<Rightarrow> bool" where
  "is_digit c \<longleftrightarrow> c \<in> set ''0123456789''"

definition strip :: "string \<Rightarrow> string" where
  "strip s = rev (dropWhile is_space (rev (dropWhile is_space s)))"

text \<open>The characters at which \<open>splitlines()\<close> ends a line; \<open>\r\n\<close> counts once.\<close>

definition is_linebreak :: "char \<Rightarrow> bool" where
  "is_linebreak c \<longleftrightarrow>
     c \<in> set [CHR 0x0A, CHR 0x0B, CHR 0x0C, CHR 0x0D, CHR 0x1C, CHR 0x1D, CHR 0x1E, CHR 0x85]"

fun splitlines_from :: "string \<Rightarrow> string \<Rightarrow> string list" where
  "splitlines_from cur [] = (if cur = [] then [] else [rev cur])"
| "splitlines_from cur (c # cs) =
     (if c = CHR 0x0D then
        (case cs of
           c' # cs' \<Rightarrow>
             if c' = CHR 0x0A then rev cur # splitlines_from [] cs'
             else rev cur # splitlines_from [] cs
         | [] \<Rightarrow> rev cur # splitlines_from [] cs)
      else if is_linebreak c then rev cur # splitlines_from [] cs
      else splitlines_from (c # cur) cs)"

definition splitlines :: "string \<Rightarrow> string list" where
  "splitlines s = splitlines_from [] s"

text \<open>\<open>s.split(sep)\<close> for a separator of one character: always at least one field.\<close>

fun split_from :: "char \<Rightarrow> string \<Rightarrow> string \<Rightarrow> string list" where
  "split_from sep cur [] = [rev cur]"
| "split_from sep cur (c # cs) =
     (if c = sep then rev cur # split_from sep [] cs else split_from sep (c # cur) cs)"

definition split_on :: "char \<Rightarrow> string \<Rightarrow> string list" where
  "split_on sep s = split_from sep [] s"

text \<open>\<open>s.split()\<close>: the maximal runs of characters that are not white space.\<close>

fun split_ws_from :: "string \<Rightarrow> string \<Rightarrow> string list" where
  "split_ws_from cur [] = (if cur = [] then [] else [rev cur])"
| "split_ws_from cur (c # cs) =
     (if is_space c then (if cur = [] then split_ws_from [] cs else rev cur # split_ws_from [] cs)
      else split_ws_from (c # cur) cs)"

definition split_ws :: "string \<Rightarrow> string list" where
  "split_ws s = split_ws_from [] s"

text \<open>\<open>sep.join(xs)\<close> for a separator of one character.\<close>

fun join :: "char \<Rightarrow> string list \<Rightarrow> string" where
  "join sep [] = []"
| "join sep [x] = x"
| "join sep (x # y # ys) = x @ sep # join sep (y # ys)"

text \<open>\<open>re.match(r"^\d", s)\<close>: the string starts with a decimal digit.\<close>

definition starts_with_digit :: "string \<Rightarrow> bool" where
  "starts_with_digit s = (case s of [] \<Rightarrow> False | c # cs \<Rightarrow> is_digit c)"

text \<open>\<open>s.replace("D", "E").replace("d", "E")\<close>.\<close>

definition d_to_e :: "string \<Rightarrow> string" where
  "d_to_e s = map (\<lambda>c. if c = CHR ''D'' \<or> c = CHR ''d'' then CHR ''E'' else c) s"

text \<open>
  \<open>[float(s) for s in xs]\<close>, for a function \<open>to_float\<close> that stands for Python's
  \<open>float\<close>: \<open>None\<close> where \<open>float\<close> raises \<open>ValueError\<close>, and then the comprehension
  raises too.
\<close>

fun floats :: "(string \<Rightarrow> real option) \<Rightarrow> string list \<Rightarrow> real list option" where
  "floats to_float [] = Some []"
| "floats to_float (s # ss) =
     (case to_float s of
        None \<Rightarrow> None
      | Some v \<Rightarrow> (case floats to_float ss of None \<Rightarrow> None | Some vs \<Rightarrow> Some (v # vs)))"

text \<open>
  A reader of plain decimal numerals (\<open>12\<close>, \<open>12.5\<close>, \<open>.5\<close>, \<open>12.\<close>), on which it agrees
  with \<open>float\<close>; it serves as \<open>to_float\<close> in the examples.
\<close>

fun digits_value :: "string \<Rightarrow> nat \<Rightarrow> nat" where
  "digits_value [] acc = acc"
| "digits_value (c # cs) acc = digits_value cs (10 * acc + (of_char c - 48))"

definition dec_float :: "string \<Rightarrow> real option" where
  "dec_float s =
     (let a = takeWhile (\<lambda>c. c \<noteq> CHR ''.'') s; b = drop 1 (dropWhile (\<lambda>c. c \<noteq> CHR ''.'') s) in
      if a @ b \<noteq> [] \<and> list_all is_digit (a @ b)
      then Some (real (digits_value (a @ b) 0) / 10 ^ length b)
      else None)"

section \<open>The sample parser: \<open>parse_vectors\<close>\<close>

text \<open>
  What one line does to the loop: it is skipped (\<open>continue\<close>), it gives a sample, or it
  raises.
\<close>

datatype row = Skip | Sample real "real list" | Raise exn

text \<open>
  \<open>x, y, z, vx, vy, vz = vals\<close> raises \<open>ValueError\<close> unless \<open>vals\<close> has six elements;
  the six are then appended to \<open>pv\<close>.
\<close>

definition unpack6 :: "real \<Rightarrow> real list \<Rightarrow> row" where
  "unpack6 jd vals =
     (if length vals = 6 then Sample jd vals
      else Raise (ValueError ''wrong number of values to unpack''))"

text \<open>generate\_ephemeris\_juno.py, the branch \<open>if "," in line\<close>.\<close>

definition drop_trailing_empty :: "string list \<Rightarrow> string list" where
  "drop_trailing_empty parts = rev (dropWhile (\<lambda>p. p = []) (rev parts))"

definition csv_parts_juno :: "string \<Rightarrow> string list" where
  "csv_parts_juno line = drop_trailing_empty (map strip (split_on CHR '','' line))"

definition csv_row_juno :: "(string \<Rightarrow> real option) \<Rightarrow> string \<Rightarrow> row" where
  "csv_row_juno to_float line =
     (let parts = csv_parts_juno line in
      if parts = [] then Skip
      else if \<not> starts_with_digit (hd parts) then Skip
      else (case to_float (hd parts) of
              None \<Rightarrow> Skip
            | Some jd \<Rightarrow>
                let start_idx = (if length parts \<ge> 8 then 2 else 1);
                    nums = take 6 (drop start_idx parts)
                in if length nums < 6 then Skip
                   else (case floats to_float (map d_to_e nums) of
                           None \<Rightarrow> Skip
                         | Some vals \<Rightarrow> unpack6 jd vals)))"

text \<open>The \<open>else\<close> branch: a table with columns separated by white space.\<close>

definition ws_row_juno :: "(string \<Rightarrow> real option) \<Rightarrow> string \<Rightarrow> row" where
  "ws_row_juno to_float line =
     (if \<not> starts_with_digit line then Skip
      else
        let fields = split_ws line in
        if length fields < 7 then Skip
        else (case to_float (hd fields) of
                None \<Rightarrow> Skip
              | Some jd \<Rightarrow>
                  (case floats to_float (map d_to_e (drop (length fields - 6) fields)) of
                     None \<Rightarrow> Skip
                   | Some vals \<Rightarrow> unpack6 jd vals)))"

definition line_juno :: "(string \<Rightarrow> real option) \<Rightarrow> string \<Rightarrow> row" where
  "line_juno to_float raw =
     (let line = strip raw in
      if line = [] then Skip
      else if CHR '','' \<in> set line then csv_row_juno to_float line
      else ws_row_juno to_float line)"

text \<open>generate\_ephemeris\_bennu.py: comma-separated rows only, of eight fields or more.\<close>

definition line_bennu :: "(string \<Rightarrow> real option) \<Rightarrow> string \<Rightarrow> row" where
  "line_bennu to_float raw =
     (let line = strip raw in
      if line = [] then Skip
      else if CHR '','' \<notin> set line then Skip
      else
        let parts = map strip (split_on CHR '','' line) in
        if length parts < 8 then Skip
        else (case to_float (hd parts) of
                None \<Rightarrow> Skip
              | Some jd \<Rightarrow>
                  (case floats to_float (map d_to_e (take 6 (drop 2 parts))) of
                     None \<Rightarrow> Skip
                   | Some vals \<Rightarrow> unpack6 jd vals)))"

text \<open>
  The loop \<open>for raw in block.splitlines()\<close> on the pair \<open>(t, pv)\<close>, for either script's
  treatment \<open>f\<close> of a line.
\<close>

fun rows_loop :: "(string \<Rightarrow> row) \<Rightarrow> string list \<Rightarrow> real list \<times> real list \<Rightarrow> exn + real list \<times> real list" where
  "rows_loop f [] acc = Inr acc"
| "rows_loop f (raw # raws) acc =
     (case f raw of
        Skip \<Rightarrow> rows_loop f raws acc
      | Sample jd vals \<Rightarrow> rows_loop f raws (fst acc @ [jd], snd acc @ vals)
      | Raise ex \<Rightarrow> Inl ex)"

text \<open>\<open>"\n".join(block.splitlines()[:25])\<close>.\<close>

definition preview :: "string \<Rightarrow> string" where
  "preview block = join (CHR 0x0A) (take 25 (splitlines block))"

definition parse_vectors_with :: "(string \<Rightarrow> row) \<Rightarrow> string \<Rightarrow> exn + real list \<times> real list" where
  "parse_vectors_with f block =
     (case rows_loop f (splitlines block) ([], []) of
        Inl ex \<Rightarrow> Inl ex
      | Inr rows \<Rightarrow> parse_guard (preview block) rows)"

definition parse_vectors_juno :: "(string \<Rightarrow> real option) \<Rightarrow> string \<Rightarrow> exn + real list \<times> real list" where
  "parse_vectors_juno to_float = parse_vectors_with (line_juno to_float)"

definition parse_vectors_bennu :: "(string \<Rightarrow> real option) \<Rightarrow> string \<Rightarrow> exn + real list \<times> real list" where
  "parse_vectors_bennu to_float = parse_vectors_with (line_bennu to_float)"

text \<open>\<open>sub in s\<close>: the string \<open>sub\<close> occurs in \<open>s\<close>.\<close>

fun starts_with :: "string \<Rightarrow> string \<Rightarrow> bool" where
  "starts_with s [] = True"
| "starts_with [] (c # cs) = False"
| "starts_with (x # xs) (c # cs) = (x = c \<and> starts_with xs cs)"

fun contains :: "string \<Rightarrow> string \<Rightarrow> bool" where
  "contains [] sub = (sub = [])"
| "contains (x # xs) sub = (starts_with (x # xs) sub \<or> contains xs sub)"

text \<open>Two blocks used as examples: one with three rows of seven fields, one without rows.\<close>

definition block_ok :: string where
  "block_ok = ''2458849.5,1,2,3,4,5,6\<newline>2458850.5,1.5,2,3,4,5,6\<newline>2458851.5,2,2,3,4,5,6''"

definition block_bad :: string where
  "block_bad = ''No ephemeris for target\<newline>2458849.5,1,2,3,4,5,6''"

section \<open>Regular expressions\<close>

text \<open>
  The expressions the scripts compile, as data, and a matcher that explores them the way
  Python's \<open>re\<close> does: alternatives from left to right, repetitions greedy, the first
  way that succeeds wins. \<open>Cls\<close> is a character set, \<open>NCls\<close> its complement, \<open>Dot\<close>
  any character but a newline, \<open>Times n\<close> the repetition \<open>{n}\<close>, \<open>Grp i\<close> the
  \<open>i\<close>-th parenthesised group.
\<close>

datatype rx =
    Eps
  | Lit char
  | Dot
  | Cls "char list"
  | NCls "char list"
  | Seq rx rx
  | Alt rx rx
  | Opt rx
  | Star rx
  | Plus rx
  | Times nat rx
  | Grp nat rx

text \<open>The rest of the subject, and the groups captured so far (latest first).\<close>

type_synonym mstate = "string \<times> (nat \<times> string) list"

definition ascii_upper :: string where
  "ascii_upper = ''ABCDEFGHIJKLMNOPQRSTUVWXYZ''"

definition ascii_lower :: string where
  "ascii_lower = ''abcdefghijklmnopqrstuvwxyz''"

definition lower :: "char \<Rightarrow> char" where
  "lower c = (case map_of (zip ascii_upper ascii_lower) c of Some l \<Rightarrow> l | None \<Rightarrow> c)"

definition upper :: "char \<Rightarrow> char" where
  "upper c = (case map_of (zip ascii_lower ascii_upper) c of Some u \<Rightarrow> u | None \<Rightarrow> c)"

text \<open>Matching one character, with and without \<open>re.IGNORECASE\<close>.\<close>

definition lit_ok :: "bool \<Rightarrow> char \<Rightarrow> char \<Rightarrow> bool" where
  "lit_ok ic c x \<longleftrightarrow> (if ic then lower x = lower c else x = c)"

definition cls_ok :: "bool \<Rightarrow> char list \<Rightarrow> char \<Rightarrow> bool" where
  "cls_ok ic cs x \<longleftrightarrow> x \<in> set cs \<or> (ic \<and> (lower x \<in> set cs \<or> upper x \<in> set cs))"

definition one_char :: "(char \<Rightarrow> bool) \<Rightarrow> mstate \<Rightarrow> mstate list" where
  "one_char ok st = (case fst st of [] \<Rightarrow> [] | x # xs \<Rightarrow> if ok x then [(xs, snd st)] else [])"

text \<open>
  \<open>n\<close> repetitions, and the greedy star: as many repetitions as possible first, each one
  consuming something; \<open>fuel\<close> is the length of the subject still unread.
\<close>

fun iter_n :: "nat \<Rightarrow> (mstate \<Rightarrow> mstate list) \<Rightarrow> mstate \<Rightarrow> mstate list" where
  "iter_n 0 f st = [st]"
| "iter_n (Suc n) f st = concat (map (iter_n n f) (f st))"

fun star_iter :: "nat \<Rightarrow> (mstate \<Rightarrow> mstate list) \<Rightarrow> mstate \<Rightarrow> mstate list" where
  "star_iter 0 f st = [st]"
| "star_iter (Suc fuel) f st =
     concat (map (star_iter fuel f) (filter (\<lambda>st'. length (fst st') < length (fst st)) (f st))) @ [st]"

primrec rmatch :: "bool \<Rightarrow> rx \<Rightarrow> mstate \<Rightarrow> mstate list" where
  "rmatch ic Eps = (\<lambda>st. [st])"
| "rmatch ic (Lit c) = one_char (lit_ok ic c)"
| "rmatch ic Dot = one_char (\<lambda>x. x \<noteq> CHR 0x0A)"
| "rmatch ic (Cls cs) = one_char (cls_ok ic cs)"
| "rmatch ic (NCls cs) = one_char (\<lambda>x. \<not> cls_ok ic cs x)"
| "rmatch ic (Seq r1 r2) = (\<lambda>st. concat (map (rmatch ic r2) (rmatch ic r1 st)))"
| "rmatch ic (Alt r1 r2) = (\<lambda>st. rmatch ic r1 st @ rmatch ic r2 st)"
| "rmatch ic (Opt r) = (\<lambda>st. rmatch ic r st @ [st])"
| "rmatch ic (Star r) = (\<lambda>st. star_iter (length (fst st)) (rmatch ic r) st)"
| "rmatch ic (Plus r) =
     (\<lambda>st. concat (map (\<lambda>st'. star_iter (length (fst st')) (rmatch ic r) st') (rmatch ic r st)))"
| "rmatch ic (Times n r) = iter_n n (rmatch ic r)"
| "rmatch ic (Grp i r) =
     (\<lambda>st. map (\<lambda>st'. (fst st', (i, take (length (fst st) - length (fst st')) (fst st)) # snd st'))
              (rmatch ic r st))"

text \<open>A sequence of expressions, and a literal word.\<close>

definition seqs :: "rx list \<Rightarrow> rx" where
  "seqs rs = foldr Seq rs Eps"

definition word :: "string \<Rightarrow> rx" where
  "word s = seqs (map Lit s)"

text \<open>
  \<open>pattern.search(s)\<close>: the first position at which the expression matches. The result
  holds what lies after the match and the groups.
\<close>

fun re_search :: "bool \<Rightarrow> rx \<Rightarrow> string \<Rightarrow> mstate option" where
  "re_search ic r [] = (case rmatch ic r ([], []) of [] \<Rightarrow> None | m # ms \<Rightarrow> Some m)"
| "re_search ic r (c # cs) =
     (case rmatch ic r (c # cs, []) of [] \<Rightarrow> re_search ic r cs | m # ms \<Rightarrow> Some m)"

text \<open>\<open>m.group(i)\<close>; \<open>None\<close> for a group that took no part in the match.\<close>

definition group :: "mstate \<Rightarrow> nat \<Rightarrow> string option" where
  "group m i = map_of (snd m) i"

text \<open>
  \<open>pattern.finditer(s)\<close> for an expression that matches no empty string: the matches
  from left to right, each search starting where the last match ended.
\<close>

fun finditer_fuel :: "nat \<Rightarrow> bool \<Rightarrow> rx \<Rightarrow> string \<Rightarrow> mstate list" where
  "finditer_fuel 0 ic r s = []"
| "finditer_fuel (Suc n) ic r s =
     (case re_search ic r s of
        None \<Rightarrow> []
      | Some m \<Rightarrow> m # (if length (fst m) < length s then finditer_fuel n ic r (fst m) else []))"

definition finditer :: "bool \<Rightarrow> rx \<Rightarrow> string \<Rightarrow> mstate list" where
  "finditer ic r s = finditer_fuel (Suc (length s)) ic r s"

text \<open>The classes \<open>\d\<close>, \<open>\s\<close> and \<open>\w\<close> of a \<open>str\<close> pattern, below 256.\<close>

definition rx_digit :: rx where
  "rx_digit = Cls ''0123456789''"

definition rx_space :: rx where
  "rx_space = Cls py_spaces"

definition word_chars :: "char list" where
  "word_chars = ''0123456789'' @ ascii_upper @ ascii_lower @ ''_''
     @ [CHR 0xAA, CHR 0xB2, CHR 0xB3, CHR 0xB5, CHR 0xB9, CHR 0xBA, CHR 0xBC, CHR 0xBD, CHR 0xBE]
     @ map char_of [0xC0 ..< 0xD7 :: nat] @ map char_of [0xD8 ..< 0xF7 :: nat]
     @ map char_of [0xF8 ..< 0x100 :: nat]"

section \<open>The inline parser of Ephemeris/scripts/generate\_ephemeris.py\<close>

text \<open>\<open>NUMBER\<close> and \<open>ROW_RE\<close> (compiled with \<open>re.IGNORECASE\<close>).\<close>

definition NUMBER :: rx where
  "NUMBER =
     seqs [Opt (Cls ''+-''),
           Alt (seqs [Plus rx_digit, Lit CHR ''.'', Star rx_digit])
             (Alt (seqs [Star rx_digit, Lit CHR ''.'', Plus rx_digit]) (Plus rx_digit)),
           Opt (seqs [Lit CHR ''E'', Opt (Cls ''+-''), Plus rx_digit])]"

definition comma_sep :: rx where
  "comma_sep = seqs [Star rx_space, Lit CHR '','', Star rx_space]"

definition ROW_RE :: rx where
  "ROW_RE =
     seqs [Grp 1 NUMBER, comma_sep, Star (NCls '',''), Lit CHR '','', Star rx_space,
           Grp 2 NUMBER, comma_sep, Grp 3 NUMBER, comma_sep, Grp 4 NUMBER, comma_sep,
           Grp 5 NUMBER, comma_sep, Grp 6 NUMBER, comma_sep, Grp 7 NUMBER]"

text \<open>\<open>" ".join(block.replace("\r", "\n").split("\n"))\<close>.\<close>

definition voyager_flat :: "string \<Rightarrow> string" where
  "voyager_flat block = map (\<lambda>c. if c = CHR 0x0D \<or> c = CHR 0x0A then CHR '' '' else c) block"

text \<open>
  \<open>float(m.group(i))\<close>: the group takes part in every match of \<open>ROW_RE\<close>; an exception of
  \<open>float\<close> would leave the function.
\<close>

definition group_float :: "(string \<Rightarrow> real option) \<Rightarrow> mstate \<Rightarrow> nat \<Rightarrow> exn + real" where
  "group_float to_float m i =
     (case group m i of
        None \<Rightarrow> Inl (OtherError ''float() argument must be a string or a real number'')
      | Some s \<Rightarrow> (case to_float s of None \<Rightarrow> Inl (ValueError ''could not convert string to float'')
                   | Some v \<Rightarrow> Inr v))"

fun group_floats :: "(string \<Rightarrow> real option) \<Rightarrow> mstate \<Rightarrow> nat list \<Rightarrow> exn + real list" where
  "group_floats to_float m [] = Inr []"
| "group_floats to_float m (i # is) =
     (case group_float to_float m i of
        Inl ex \<Rightarrow> Inl ex
      | Inr v \<Rightarrow> (case group_floats to_float m is of Inl ex \<Rightarrow> Inl ex | Inr vs \<Rightarrow> Inr (v # vs)))"

text \<open>The loop \<open>for m in ROW_RE.finditer(flat)\<close>.\<close>

fun voyager_loop ::
  "(string \<Rightarrow> real option) \<Rightarrow> mstate list \<Rightarrow> real list \<times> real list \<Rightarrow> exn + real list \<times> real list" where
  "voyager_loop to_float [] acc = Inr acc"
| "voyager_loop to_float (m # ms) acc =
     (case group_floats to_float m [1, 2, 3, 4, 5, 6, 7] of
        Inl ex \<Rightarrow> Inl ex
      | Inr vs \<Rightarrow> voyager_loop to_float ms (fst acc @ [hd vs], snd acc @ tl vs))"

text \<open>
  \<open>horizons_vectors\<close> from the block between the markers on: the rows, then the test
  \<open>if len(t_jd) < 2\<close>.
\<close>

definition voyager_parse :: "(string \<Rightarrow> real option) \<Rightarrow> string \<Rightarrow> exn + real list \<times> real list" where
  "voyager_parse to_float block =
     (case voyager_loop to_float (finditer True ROW_RE (voyager_flat block)) ([], []) of
        Inl ex \<Rightarrow> Inl ex
      | Inr (t_jd, pv) \<Rightarrow>
          if length t_jd < 2 then Inl (RuntimeError ''Parsed too few samples from Horizons output.'')
          else Inr (t_jd, pv))"


text \<open>Two rows as Horizons prints them with \<open>CSV_FORMAT=YES\<close>, for the examples.\<close>

definition block_voyager :: string where
  "block_voyager =
     '' 2443392.5, A.D. 1977-Sep-05 12:00, 1, 2, 3, 4, 5, 6,\<newline> 2443393.5, A.D. 1977-Sep-06 12:00, 1.5, 2, 3, 4, 5, 6,\<newline>''"

section \<open>The range-error interpreter: \<open>parse_earliest_from_error\<close>\<close>

text \<open>
  A \<open>datetime\<close> in UTC with whole seconds. The constructor of Python's class accepts the
  years 1 to 9999 and the days that the month has.
\<close>

record datetime =
  year :: nat
  month :: nat
  day :: nat
  hour :: nat
  minute :: nat
  second :: nat

definition is_leap :: "nat \<Rightarrow> bool" where
  "is_leap y \<longleftrightarrow> y mod 4 = 0 \<and> (y mod 100 \<noteq> 0 \<or> y mod 400 = 0)"

definition days_in_month :: "nat \<Rightarrow> nat \<Rightarrow> nat" where
  "days_in_month y m =
     (if m = 2 then (if is_leap y then 29 else 28)
      else if m = 4 \<or> m = 6 \<or> m = 9 \<or> m = 11 then 30 else 31)"

definition valid_datetime :: "datetime \<Rightarrow> bool" where
  "valid_datetime dt \<longleftrightarrow>
     1 \<le> year dt \<and> year dt \<le> 9999 \<and> 1 \<le> month dt \<and> month dt \<le> 12
     \<and> 1 \<le> day dt \<and> day dt \<le> days_in_month (year dt) (month dt)
     \<and> hour dt < 24 \<and> minute dt < 60 \<and> second dt < 60"

text \<open>
  \<open>int(s)\<close> on a \<open>str\<close>: white space around the numeral is dropped, a sign may lead,
  and single underscores may stand between digits. \<open>None\<close> stands for \<open>ValueError\<close>.
\<close>

fun int_body_ok :: "string \<Rightarrow> bool" where
  "int_body_ok [] = False"
| "int_body_ok [c] = is_digit c"
| "int_body_ok (c # d # cs) =
     (is_digit c \<and> (if d = CHR ''_'' then int_body_ok cs else int_body_ok (d # cs)))"

definition py_int :: "string \<Rightarrow> int option" where
  "py_int s =
     (let t = strip s;
          neg = (t \<noteq> [] \<and> hd t = CHR ''-'');
          body = (if t \<noteq> [] \<and> (hd t = CHR ''-'' \<or> hd t = CHR ''+'') then tl t else t)
      in if int_body_ok body
         then Some ((if neg then - 1 else 1) * int (digits_value (filter is_digit body) 0))
         else None)"

subsection \<open>generate\_ephemeris\_bennu.py\<close>

text \<open>
  \<open>EARLIEST_RE = re.compile(r"earliest\s+available\s+date\s+is\s+([\w\s:\-]+)\s+\(UT\)", re.I)\<close>;
  \<open>date_chars\<close> is the class \<open>[\w\s:\-]\<close>.
\<close>

definition date_chars :: "char list" where
  "date_chars = word_chars @ py_spaces @ '':-''"

definition EARLIEST_RE_bennu :: rx where
  "EARLIEST_RE_bennu =
     seqs [word ''earliest'', Plus rx_space, word ''available'', Plus rx_space,
           word ''date'', Plus rx_space, word ''is'', Plus rx_space,
           Grp 1 (Plus (Cls date_chars)),
           Plus rx_space, word ''(UT)'']"

text \<open>
  \<open>datetime.strptime(s, "%Y-%b-%d %H:%M")\<close>. The library turns the format into the
  expression below (the month names are those of the C locale, a blank of the format
  stands for \<open>\s+\<close>), matches it at the start of \<open>s\<close> ignoring case, and raises
  \<open>ValueError\<close> when it does not match, when text remains after the match, or when the
  fields are no date. \<open>None\<close> stands for \<open>ValueError\<close>. Seconds are 0.
\<close>

definition alts :: "rx list \<Rightarrow> rx" where
  "alts rs = foldr Alt (butlast rs) (last rs)"

definition month_abbr :: "string list" where
  "month_abbr = [''jan'', ''feb'', ''mar'', ''apr'', ''may'', ''jun'',
                 ''jul'', ''aug'', ''sep'', ''oct'', ''nov'', ''dec'']"

definition RE_Y :: rx where
  "RE_Y = seqs [rx_digit, rx_digit, rx_digit, rx_digit]"

definition RE_b :: rx where
  "RE_b = alts (map word month_abbr)"

definition RE_d :: rx where
  "RE_d = alts [seqs [Lit CHR ''3'', Cls ''01''], seqs [Cls ''12'', rx_digit],
                seqs [Lit CHR ''0'', Cls ''123456789''], Cls ''123456789'',
                seqs [Lit CHR '' '', Cls ''123456789'']]"

definition RE_H :: rx where
  "RE_H = alts [seqs [Lit CHR ''2'', Cls ''0123''], seqs [Cls ''01'', rx_digit], rx_digit]"

definition RE_M :: rx where
  "RE_M = alts [seqs [Cls ''012345'', rx_digit], rx_digit]"

definition STRPTIME_RE :: rx where
  "STRPTIME_RE =
     seqs [Grp 1 RE_Y, Lit CHR ''-'', Grp 2 RE_b, Lit CHR ''-'', Grp 3 RE_d, Plus rx_space,
           Grp 4 RE_H, Lit CHR '':'', Grp 5 RE_M]"

fun index_of :: "'a \<Rightarrow> 'a list \<Rightarrow> nat option" where
  "index_of x [] = None"
| "index_of x (y # ys) = (if x = y then Some 0 else map_option Suc (index_of x ys))"

definition strptime :: "string \<Rightarrow> datetime option" where
  "strptime s =
     (case rmatch True STRPTIME_RE (s, []) of
        [] \<Rightarrow> None
      | m # ms \<Rightarrow>
          if fst m \<noteq> [] then None
          else
            (case (group m 1, group m 2, group m 3, group m 4, group m 5) of
               (Some gY, Some gb, Some gd, Some gH, Some gM) \<Rightarrow>
                 (case (py_int gY, index_of (map lower gb) month_abbr, py_int gd, py_int gH, py_int gM) of
                    (Some y, Some b, Some d, Some h, Some mi) \<Rightarrow>
                      (let dt = \<lparr>year = nat y, month = Suc b, day = nat d, hour = nat h,
                                 minute = nat mi, second = 0\<rparr>
                       in if valid_datetime dt then Some dt else None)
                  | _ \<Rightarrow> None)
             | _ \<Rightarrow> None))"

text \<open>
  \<open>parse_earliest_from_error\<close>: the search, \<open>m.group(1).strip()\<close>, and \<open>strptime\<close> with
  its \<open>ValueError\<close> turned into \<open>None\<close>. Group 1 takes part in every match.
\<close>

definition parse_earliest_from_error_bennu :: "string \<Rightarrow> datetime option" where
  "parse_earliest_from_error_bennu msg =
     (case re_search True EARLIEST_RE_bennu msg of
        None \<Rightarrow> None
      | Some m \<Rightarrow> (case group m 1 of None \<Rightarrow> None | Some s \<Rightarrow> strptime (strip s)))"

subsection \<open>generate\_ephemeris\_juno.py\<close>

text \<open>
  \<open>EARLIEST_RE\<close> is compiled from a raw string in which every backslash is doubled:
  \<open>r"prior to A\\.D\\. (\\d{4})-([A-Z]{3})-(\\d{2}) (\\d{2}):(\\d{2}):(\\d{2})(?:\\.(\\d+))? UT"\<close>.
  In the expression \<open>\\\<close> is a backslash, \<open>.\<close> any character, and \<open>d{4}\<close> four letters
  \<open>d\<close>.
\<close>

definition backslash :: char where
  "backslash = CHR 0x5C"

definition bs_d :: "nat \<Rightarrow> rx" where
  "bs_d n = Seq (Lit backslash) (Times n (Lit CHR ''d''))"

definition EARLIEST_RE_juno :: rx where
  "EARLIEST_RE_juno =
     seqs [word ''prior to A'', Lit backslash, Dot, Lit CHR ''D'', Lit backslash, Dot, Lit CHR '' '',
           Grp 1 (bs_d 4), Lit CHR ''-'', Grp 2 (Times 3 (Cls ascii_upper)), Lit CHR ''-'',
           Grp 3 (bs_d 2), Lit CHR '' '', Grp 4 (bs_d 2), Lit CHR '':'', Grp 5 (bs_d 2),
           Lit CHR '':'', Grp 6 (bs_d 2),
           Opt (seqs [Lit backslash, Dot, Grp 7 (Seq (Lit backslash) (Plus (Lit CHR ''d'')))]),
           word '' UT'']"

definition MONTH :: "string \<rightharpoonup> nat" where
  "MONTH = map_of [(''JAN'', 1), (''FEB'', 2), (''MAR'', 3), (''APR'', 4), (''MAY'', 5), (''JUN'', 6),
                   (''JUL'', 7), (''AUG'', 8), (''SEP'', 9), (''OCT'', 10), (''NOV'', 11), (''DEC'', 12)]"

text \<open>The constructor \<open>datetime(y, mo, d, h, mi, s, tzinfo=timezone.utc)\<close>.\<close>

definition mk_datetime :: "int \<Rightarrow> nat \<Rightarrow> int \<Rightarrow> int \<Rightarrow> int \<Rightarrow> int \<Rightarrow> exn + datetime" where
  "mk_datetime y mo d h mi s =
     (let dt = \<lparr>year = nat y, month = mo, day = nat d, hour = nat h, minute = nat mi, second = nat s\<rparr>
      in if 0 \<le> y \<and> 0 \<le> d \<and> 0 \<le> h \<and> 0 \<le> mi \<and> 0 \<le> s \<and> valid_datetime dt then Inr dt
         else Inl (ValueError ''datetime field out of range''))"

text \<open>\<open>dt + timedelta(seconds=1)\<close>; past the last second of the year 9999 it raises \<open>OverflowError\<close>.\<close>

definition add_second :: "datetime \<Rightarrow> exn + datetime" where
  "add_second dt =
     (if second dt < 59 then Inr (dt\<lparr>second := second dt + 1\<rparr>)
      else if minute dt < 59 then Inr (dt\<lparr>minute := minute dt + 1, second := 0\<rparr>)
      else if hour dt < 23 then Inr (dt\<lparr>hour := hour dt + 1, minute := 0, second := 0\<rparr>)
      else if day dt < days_in_month (year dt) (month dt)
        then Inr (dt\<lparr>day := day dt + 1, hour := 0, minute := 0, second := 0\<rparr>)
      else if month dt < 12
        then Inr (dt\<lparr>month := month dt + 1, day := 1, hour := 0, minute := 0, second := 0\<rparr>)
      else if year dt < 9999
        then Inr (dt\<lparr>year := year dt + 1, month := 1, day := 1, hour := 0, minute := 0, second := 0\<rparr>)
      else Inl (OtherError ''OverflowError: date value out of range''))"

text \<open>
  \<open>parse_earliest_from_error\<close>: the arguments of the constructor are evaluated from left
  to right, so the first \<open>int\<close> that fails raises. The groups 1 to 6 take part in every
  match.
\<close>

definition int_or_raise :: "string option \<Rightarrow> exn + int" where
  "int_or_raise g =
     (case g of
        None \<Rightarrow> Inl (OtherError ''TypeError: int() argument must be a string'')
      | Some s \<Rightarrow> (case py_int s of
                     None \<Rightarrow> Inl (ValueError (''invalid literal for int() with base 10: '' @ s))
                   | Some i \<Rightarrow> Inr i))"

definition parse_earliest_from_error_juno :: "string \<Rightarrow> exn + datetime option" where
  "parse_earliest_from_error_juno err =
     (case re_search False EARLIEST_RE_juno err of
        None \<Rightarrow> Inr None
      | Some m \<Rightarrow>
          (case int_or_raise (group m 1) of Inl ex \<Rightarrow> Inl ex | Inr yyyy \<Rightarrow>
           let mon = (case group m 2 of None \<Rightarrow> 1 | Some g \<Rightarrow> (case MONTH g of None \<Rightarrow> 1 | Some k \<Rightarrow> k)) in
           (case int_or_raise (group m 3) of Inl ex \<Rightarrow> Inl ex | Inr dd \<Rightarrow>
           (case int_or_raise (group m 4) of Inl ex \<Rightarrow> Inl ex | Inr hh \<Rightarrow>
           (case int_or_raise (group m 5) of Inl ex \<Rightarrow> Inl ex | Inr mm \<Rightarrow>
           (case int_or_raise (group m 6) of Inl ex \<Rightarrow> Inl ex | Inr ss \<Rightarrow>
           (case mk_datetime yyyy mon dd hh mm ss of Inl ex \<Rightarrow> Inl ex | Inr dt \<Rightarrow>
           (case add_second dt of Inl ex \<Rightarrow> Inl ex | Inr dt' \<Rightarrow> Inr (Some dt')))))))))"

text \<open>Messages for the examples: the one of the specification, and Horizons' own wording.\<close>

definition msg_earliest :: string where
  "msg_earliest = ''No ephemeris: earliest available date is 1950-Jan-01 00:00 (UT)''"

definition msg_prior :: string where
  "msg_prior = ''No ephemeris for target prior to A.D. 1950-JAN-01 00:00:00.0000 UT''"

text \<open>
  The way Horizons writes an instant to the minute, as in \<open>1950-Jan-01 00:00\<close>, and the
  message that discloses it as the earliest date, between any two texts.
\<close>

definition digit_char :: "nat \<Rightarrow> char" where
  "digit_char n = char_of (48 + n mod 10)"

definition two_digits :: "nat \<Rightarrow> string" where
  "two_digits n = [digit_char (n div 10), digit_char n]"

definition four_digits :: "nat \<Rightarrow> string" where
  "four_digits n = [digit_char (n div 1000), digit_char (n div 100), digit_char (n div 10), digit_char n]"

definition Mon :: "string list" where
  "Mon = [''Jan'', ''Feb'', ''Mar'', ''Apr'', ''May'', ''Jun'',
          ''Jul'', ''Aug'', ''Sep'', ''Oct'', ''Nov'', ''Dec'']"

definition stamp :: "datetime \<Rightarrow> string" where
  "stamp dt =
     four_digits (year dt) @ ''-'' @ Mon ! (month dt - 1) @ ''-'' @ two_digits (day dt)
       @ '' '' @ two_digits (hour dt) @ '':'' @ two_digits (minute dt)"

definition earliest_message :: "string \<Rightarrow> datetime \<Rightarrow> string \<Rightarrow> string" where
  "earliest_message pre dt post = pre @ ''earliest available date is '' @ stamp dt @ '' (UT)'' @ post"

text \<open>
  The first way in which an expression matches from a state, which is the one that
  \<open>search\<close> and \<open>match\<close> return.
\<close>

definition leads :: "bool \<Rightarrow> rx \<Rightarrow> mstate \<Rightarrow> mstate \<Rightarrow> bool" where
  "leads ic r st m \<longleftrightarrow> (\<exists>ms. rmatch ic r st = m # ms)"

text \<open>The numbers of the groups of an expression.\<close>

primrec grps :: "rx \<Rightarrow> nat set" where
  "grps Eps = {}"
| "grps (Lit c) = {}"
| "grps Dot = {}"
| "grps (Cls cs) = {}"
| "grps (NCls cs) = {}"
| "grps (Seq r1 r2) = grps r1 \<union> grps r2"
| "grps (Alt r1 r2) = grps r1 \<union> grps r2"
| "grps (Opt r) = grps r"
| "grps (Star r) = grps r"
| "grps (Plus r) = grps r"
| "grps (Times n r) = grps r"
| "grps (Grp i r) = insert i (grps r)"

text \<open>
  The order of \<open>datetime\<close> values in UTC is that of their seconds since 1970-01-01
  00:00:00: \<open>toordinal\<close> counts the days from 0001-01-01, which is day 1.
\<close>

definition days_before_year :: "nat \<Rightarrow> nat" where
  "days_before_year y = (y - 1) * 365 + (y - 1) div 4 - (y - 1) div 100 + (y - 1) div 400"

definition days_before_month :: "nat \<Rightarrow> nat \<Rightarrow> nat" where
  "days_before_month y m = sum_list (map (days_in_month y) [1 ..< m])"

definition toordinal :: "datetime \<Rightarrow> nat" where
  "toordinal dt = days_before_year (year dt) + days_before_month (year dt) (month dt) + day dt"

definition timestamp :: "datetime \<Rightarrow> int" where
  "timestamp dt =
     (int (toordinal dt) - 719163) * 86400 + int (hour dt) * 3600 + int (minute dt) * 60
       + int (second dt)"
section \<open>The chunk scheduler: \<open>horizons_vectors_chunked\<close>\<close>

subsection \<open>One request: \<open>horizons_vectors_once\<close> of generate\_ephemeris\_juno.py\<close>

text \<open>
  What one request meets. \<open>request_json\<close> either raises, after its attempts,
  \<open>RuntimeError\<close> with the text of the last error (\<open>Failed\<close>), or returns the decoded
  value \<open>j\<close>: not a dictionary (\<open>NotADict\<close>, \<open>j.get\<close> raises \<open>AttributeError\<close>); a
  dictionary whose \<open>error\<close> entry is set, \<open>ErrorReply\<close> with \<open>str(j["error"])\<close>; one
  whose \<open>result\<close> is no string (\<open>NoResult\<close>); one whose \<open>result\<close> holds no
  \<open>$$SOE\<close> ... \<open>$$EOE\<close> block, so that \<open>extract_block\<close> raises (\<open>NoBlock\<close> with the
  text of the result); or one with a block: \<open>Block\<close> with the first 25 lines of the
  block, the rows that the loop of \<open>parse_vectors\<close> reads from it, and the signature of
  the response (\<open>{}\<close> when it is no dictionary).
\<close>

datatype 'sg response =
    Failed string
  | NotADict
  | ErrorReply string
  | NoResult
  | NoBlock string
  | Block string "real list \<times> real list" 'sg

text \<open>
  The service is an oracle: \<open>svc k s e\<close> is what the \<open>k\<close>-th call of
  \<open>horizons_vectors_once\<close> meets for the window from \<open>s\<close> to \<open>e\<close> (whole seconds;
  \<open>fmt_utcish\<close> writes them out without loss).
\<close>

type_synonym 'sg service = "nat \<Rightarrow> int \<Rightarrow> int \<Rightarrow> 'sg response"

text \<open>
  \<open>_HORIZONS_PRIOR_RE\<close> and \<open>_HORIZONS_AFTER_RE\<close>, both compiled with
  \<open>re.IGNORECASE\<close>; \<open>HORIZONS_STAMP\<close> is their group,
  \<open>(\d{4}-[A-Z]{3}-\d{2}\s+\d{2}:\d{2}:\d{2}\.\d+)\<close>.
\<close>

definition HORIZONS_STAMP :: rx where
  "HORIZONS_STAMP =
     seqs [Times 4 rx_digit, Lit CHR ''-'', Times 3 (Cls ascii_upper), Lit CHR ''-'',
           Times 2 rx_digit, Plus rx_space, Times 2 rx_digit, Lit CHR '':'', Times 2 rx_digit,
           Lit CHR '':'', Times 2 rx_digit, Lit CHR ''.'', Plus rx_digit]"

definition HORIZONS_PRIOR_RE :: rx where
  "HORIZONS_PRIOR_RE =
     seqs [word ''prior to'', Plus rx_space, word ''A.D.'', Plus rx_space, Grp 1 HORIZONS_STAMP]"

definition HORIZONS_AFTER_RE :: rx where
  "HORIZONS_AFTER_RE =
     seqs [word ''after'', Plus rx_space, word ''A.D.'', Plus rx_space, Grp 1 HORIZONS_STAMP]"

text \<open>
  \<open>_parse_horizons_ad_time\<close> evaluates \<open>datetime.datetime.strptime(...)\<close> inside
  \<open>try\<close>. The script imports the class (\<open>from datetime import datetime, timezone\<close>), so
  \<open>datetime.datetime\<close> looks up an attribute that the class does not have: it raises
  \<open>AttributeError\<close>, and \<open>except Exception\<close> makes the function return \<open>None\<close>, for
  every argument.
\<close>

definition parse_horizons_ad_time :: "string \<Rightarrow> datetime option" where
  "parse_horizons_ad_time s = None"

text \<open>\<open>m = RE.search(et)\<close>, then \<open>_parse_horizons_ad_time(m.group(1))\<close> if it matched.\<close>

definition limit_time :: "rx \<Rightarrow> string \<Rightarrow> datetime option" where
  "limit_time r et =
     (case re_search True r et of
        None \<Rightarrow> None
      | Some m \<Rightarrow> (case group m 1 of None \<Rightarrow> None | Some g \<Rightarrow> parse_horizons_ad_time g))"

text \<open>
  \<open>_maybe_clip_to_horizons_limits\<close>. Where it has a time it goes on to
  \<open>datetime.timedelta(seconds=1)\<close>, again an attribute that the class does not have, and
  no \<open>try\<close> surrounds it.
\<close>

definition maybe_clip_to_horizons_limits :: "string \<Rightarrow> int \<Rightarrow> int \<Rightarrow> exn + int \<times> int" where
  "maybe_clip_to_horizons_limits err_text start_time stop_time =
     (case limit_time HORIZONS_PRIOR_RE err_text of
        Some dt \<Rightarrow> Inl (OtherError ''AttributeError: timedelta'')
      | None \<Rightarrow>
          (case limit_time HORIZONS_AFTER_RE err_text of
             Some dt \<Rightarrow> Inl (OtherError ''AttributeError: timedelta'')
           | None \<Rightarrow> Inr (start_time, stop_time)))"

text \<open>
  \<open>s.replace("\\r", "")\<close>, which removes a backslash followed by \<open>r\<close>, and the error
  of \<open>extract_block\<close>, whose message ends with
  \<open>result.strip().replace("\r", "")[:1200]\<close>.
\<close>

fun drop_backslash_r :: "string \<Rightarrow> string" where
  "drop_backslash_r (a # b # cs) =
     (if a = backslash \<and> b = CHR ''r'' then drop_backslash_r cs else a # drop_backslash_r (b # cs))"
| "drop_backslash_r cs = cs"

definition extract_block_error :: "string \<Rightarrow> exn" where
  "extract_block_error res =
     RuntimeError (''Missing $$SOE/$$EOE. '' @ take 1200 (filter (\<lambda>c. c \<noteq> CHR 0x0D) (strip res)))"

text \<open>
  \<open>horizons_vectors_once\<close> with its parameter \<open>allow_retry\<close>. The request of a retry is
  answered by \<open>svc k\<close> for the clipped window. \<open>parse_earliest_from_error\<close> may raise,
  and so may \<open>_maybe_clip_to_horizons_limits\<close> inside the handler.
\<close>

function horizons_vectors_once_with ::
  "bool \<Rightarrow> 'sg service \<Rightarrow> nat \<Rightarrow> int \<Rightarrow> int \<Rightarrow> exn + real list \<times> real list \<times> 'sg" where
  "horizons_vectors_once_with allow_retry svc k start_time stop_time =
     (case svc k start_time stop_time of
        Failed last_error \<Rightarrow> Inl (RuntimeError (''Horizons request failed: '' @ last_error))
      | NotADict \<Rightarrow> Inl (OtherError ''AttributeError: get'')
      | ErrorReply err \<Rightarrow>
          (case parse_earliest_from_error_juno err of
             Inl ex \<Rightarrow> Inl ex
           | Inr (Some earliest) \<Rightarrow> Inl (StartTooEarly (timestamp earliest) err)
           | Inr None \<Rightarrow> Inl (RuntimeError err))
      | NoResult \<Rightarrow> Inl (RuntimeError ''Missing result field.'')
      | NoBlock res \<Rightarrow>
          (case maybe_clip_to_horizons_limits (drop_backslash_r (strip res)) start_time stop_time of
             Inl ex \<Rightarrow> Inl ex
           | Inr (new_start, new_stop) \<Rightarrow>
               if allow_retry \<and> (new_start \<noteq> start_time \<or> new_stop \<noteq> stop_time)
               then horizons_vectors_once_with False svc k new_start new_stop
               else Inl (extract_block_error res))
      | Block pvw rows sg \<Rightarrow>
          (case parse_guard pvw rows of
             Inl ex \<Rightarrow> Inl ex
           | Inr (t, pv) \<Rightarrow> Inr (t, pv, sg)))"
  by pat_completeness auto

termination
  by (relation "measure (\<lambda>(allow_retry, svc, k, s, e). if allow_retry then 1 else 0)") auto

declare horizons_vectors_once_with.simps [simp del]

definition horizons_vectors_once ::
  "'sg service \<Rightarrow> nat \<Rightarrow> int \<Rightarrow> int \<Rightarrow> exn + real list \<times> real list \<times> 'sg" where
  "horizons_vectors_once svc k s e = horizons_vectors_once_with True svc k s e"

subsection \<open>The window loop of generate\_ephemeris\_juno.py\<close>

definition MAX_SAMPLES_PER_CALL :: int where
  "MAX_SAMPLES_PER_CALL = 2000"

text \<open>
  The variables of the window loop of generate\_ephemeris\_juno.py, and the number of
  calls made so far. \<open>sig_any\<close> is \<open>None\<close> for the empty dictionary the loop starts
  with.
\<close>

record 'sg chunk_state =
  start_dt :: int
  all_t :: "real list"
  all_pv :: "real list"
  sig_any :: "'sg option"
  calls :: nat

definition chunk_init :: "int \<Rightarrow> 'sg chunk_state" where
  "chunk_init start = \<lparr>start_dt = start, all_t = [], all_pv = [], sig_any = None, calls = 0\<rparr>"

text \<open>The statements after the loop: the final test and the \<open>return\<close>.\<close>

definition chunk_finish :: "'sg chunk_state \<Rightarrow> exn + real list \<times> real list \<times> 'sg option" where
  "chunk_finish st =
     (if length (all_t st) < 2 \<or> length (all_pv st) \<noteq> length (all_t st) * 6
      then Inl (RuntimeError ''Chunked parse produced invalid output.'')
      else Inr (all_t st, all_pv st, sig_any st))"

text \<open>
  Merging a fetched window into the state: the first window is taken as it is and gives
  the signature (\<open>sig_any = sig_any or sig\<close>), a later one is stitched.
\<close>

definition chunk_merge :: "'sg chunk_state \<Rightarrow> real list \<Rightarrow> real list \<Rightarrow> 'sg \<Rightarrow> 'sg chunk_state" where
  "chunk_merge st t pv sg =
     (case stitch_juno (all_t st, all_pv st) (t, pv) of
        (ts, pvs) \<Rightarrow>
          st\<lparr>all_t := ts, all_pv := pvs,
             sig_any := (if all_t st = [] then (case sig_any st of None \<Rightarrow> Some sg | Some s0 \<Rightarrow> Some s0)
                         else sig_any st),
             calls := Suc (calls st)\<rparr>)"

text \<open>
  One pass through the body of \<open>while start_dt < stop_dt\<close>: \<open>Inl\<close> when the function
  is left (by \<open>raise\<close>, or by \<open>break\<close> and the statements after the loop), \<open>Inr\<close> with
  the next state when the loop goes on (\<open>continue\<close> after \<open>StartTooEarly\<close>, or the end
  of the body).
\<close>

definition chunk_body_juno ::
  "'sg service \<Rightarrow> int \<Rightarrow> int \<Rightarrow> 'sg chunk_state \<Rightarrow>
   (exn + real list \<times> real list \<times> 'sg option) + 'sg chunk_state" where
  "chunk_body_juno svc max_span_s stop_dt st =
     (let chunk_stop = (if start_dt st + max_span_s > stop_dt then stop_dt
                        else start_dt st + max_span_s) in
      case horizons_vectors_once svc (calls st) (start_dt st) chunk_stop of
        Inl (StartTooEarly earliest_dt msg) \<Rightarrow>
          if earliest_dt \<ge> stop_dt then Inl (Inl (RuntimeError msg))
          else Inr (st\<lparr>start_dt := earliest_dt, calls := Suc (calls st)\<rparr>)
      | Inl ex \<Rightarrow> Inl (Inl ex)
      | Inr (t, pv, sg) \<Rightarrow>
          (let st' = chunk_merge st t pv sg in
           if chunk_stop = start_dt st then Inl (chunk_finish st')
           else Inr (st'\<lparr>start_dt := chunk_stop\<rparr>)))"

text \<open>
  The loop. As a function of any span and any service it need not end (a negative span
  moves the cursor back for ever), so the result is an option: \<open>None\<close> is a run that
  never returns.
\<close>

partial_function (option) chunk_loop_juno ::
  "'sg service \<Rightarrow> int \<Rightarrow> int \<Rightarrow> 'sg chunk_state \<Rightarrow>
   (exn + real list \<times> real list \<times> 'sg option) option" where
  "chunk_loop_juno svc max_span_s stop_dt st =
     (if start_dt st < stop_dt then
        (case chunk_body_juno svc max_span_s stop_dt st of
           Inl r \<Rightarrow> Some r
         | Inr st' \<Rightarrow> chunk_loop_juno svc max_span_s stop_dt st')
      else Some (chunk_finish st))"

text \<open>
  \<open>horizons_vectors_chunked\<close>, for a step of \<open>step_s\<close> seconds (the value of
  \<open>step_seconds(step_size)\<close>) and the parsed start and stop times.
\<close>

definition horizons_vectors_chunked_juno ::
  "'sg service \<Rightarrow> int \<Rightarrow> int \<Rightarrow> int \<Rightarrow> (exn + real list \<times> real list \<times> 'sg option) option" where
  "horizons_vectors_chunked_juno svc step_s start stop =
     chunk_loop_juno svc (step_s * (MAX_SAMPLES_PER_CALL - 1)) stop (chunk_init start)"

section \<open>A model of the service\<close>

text \<open>
  The Julian date of an instant given in seconds since 1970-01-01 00:00:00 UTC.
\<close>

definition jd_of :: "int \<Rightarrow> real" where
  "jd_of s = 24405875 / 10 + real_of_int s / 86400"

type_synonym vec6 = "real \<times> real \<times> real \<times> real \<times> real \<times> real"

definition flat6 :: "vec6 \<Rightarrow> real list" where
  "flat6 v = (case v of (x, y, z, vx, vy, vz) \<Rightarrow> [x, y, z, vx, vy, vz])"

text \<open>
  The step grid anchored at \<open>g0\<close>: the instants \<open>g0 + k * step\<close>, \<open>k = 0, 1, ...\<close>;
  \<open>grid g0 step a b\<close> lists those that fall in the window from \<open>a\<close> to \<open>b\<close>, both ends
  included. \<open>grid_rows\<close> are the rows a response carries for them: the Julian dates and
  the flattened state vectors.
\<close>

definition grid :: "int \<Rightarrow> int \<Rightarrow> int \<Rightarrow> int \<Rightarrow> int list" where
  "grid g0 step a b =
     filter (\<lambda>g. a \<le> g) (map (\<lambda>k. g0 + int k * step) [0 ..< nat ((b - g0) div step + 1)])"

definition grid_rows :: "(int \<Rightarrow> vec6) \<Rightarrow> int list \<Rightarrow> real list \<times> real list" where
  "grid_rows vec gs = (map jd_of gs, concat (map (\<lambda>g. flat6 (vec g)) gs))"

text \<open>
  A service that has data from the instant \<open>avail\<close> on. A window that starts earlier is
  answered with the text \<open>msg\<close>, which holds no block; otherwise the \<open>k\<close>-th request
  either fails with the error text \<open>fail k\<close> or is answered with exactly the samples
  of the grid that fall in the window. \<open>pre\<close> and \<open>sg\<close> give the preview of the block
  and the signature of the response for a window.
\<close>

definition grid_service ::
  "(nat \<Rightarrow> string option) \<Rightarrow> int \<Rightarrow> string \<Rightarrow> int \<Rightarrow> int \<Rightarrow> (int \<Rightarrow> vec6) \<Rightarrow>
   (int \<Rightarrow> int \<Rightarrow> string) \<Rightarrow> (int \<Rightarrow> int \<Rightarrow> 'sg) \<Rightarrow> 'sg service" where
  "grid_service fail avail msg g0 step vec pre sg k a b =
     (if a < avail then NoBlock msg
      else (case fail k of
              Some last_error \<Rightarrow> Failed last_error
            | None \<Rightarrow> Block (pre a b) (grid_rows vec (grid g0 step a b)) (sg a b)))"

text \<open>The error \<open>parse_vectors\<close> raises for a block with the preview \<open>p\<close>.\<close>

definition too_few_error :: "string \<Rightarrow> exn" where
  "too_few_error p = RuntimeError (''Parsed too few samples. Preview:'' @ CHR 0x0A # p)"

text \<open>The grid instants with the indices \<open>i, ..., n - 1\<close>.\<close>

definition gidx :: "int \<Rightarrow> int \<Rightarrow> nat \<Rightarrow> nat \<Rightarrow> int list" where
  "gidx g0 step i n = map (\<lambda>k. g0 + int k * step) [i ..< n]"

text \<open>
  Services used as examples, all with a step of one day and data from the epoch on.
  \<open>day_service fail\<close> fails where \<open>fail\<close> says, \<open>juno_day_service\<close> never fails.
  \<open>short_service\<close> answers every window with its first two samples only.
\<close>

definition demo_vec :: "int \<Rightarrow> vec6" where
  "demo_vec g = (real_of_int g, 0, 0, 0, 0, 0)"

definition day_service :: "(nat \<Rightarrow> string option) \<Rightarrow> (int \<times> int) service" where
  "day_service fail = grid_service fail 0 [] 0 86400 demo_vec (\<lambda>a b. []) (\<lambda>a b. (a, b))"

definition juno_day_service :: "(int \<times> int) service" where
  "juno_day_service =
     grid_service (\<lambda>k. None) 0 [] 0 86400 demo_vec (\<lambda>a b. []) (\<lambda>a b. (a, b))"

definition short_service :: "(int \<times> int) service" where
  "short_service k a b = Block [] (grid_rows demo_vec [a, a + 86400]) (a, b)"

text \<open>
  The hypothesis on a service that every block it delivers holds exactly the samples of
  the grid anchored at \<open>g0\<close> that fall in the requested window.
\<close>

definition delivers_grid :: "'sg service \<Rightarrow> int \<Rightarrow> int \<Rightarrow> (int \<Rightarrow> vec6) \<Rightarrow> bool" where
  "delivers_grid svc g0 step vec \<longleftrightarrow>
     (\<forall>k a b p rows s. svc k a b = Block p rows s \<longrightarrow> rows = grid_rows vec (grid g0 step a b))"
section \<open>The schedulers of the other two scripts\<close>


subsection \<open>generate\_ephemeris\_explorer\_one.py\<close>






subsection \<open>generate\_ephemeris\_bennu.py\<close>






section \<open>Properties of the ISS propagation loop\<close>

lemma iss_loop_snoc: "iss_loop st (ss @ [s]) = iss_step (iss_loop st ss) s"
  by (induction ss arbitrary: st) simp_all

lemma length_state6: "length (state6 s) = 6"
  by (simp add: state6_def split: prod.splits)

lemma length_last6: "6 \<le> length pv \<Longrightarrow> length (last6 pv) = 6"
  by (simp add: last6_def)

lemma iss_main_snoc: "iss_main (ss @ [s]) = iss_step (iss_main ss) s"
  by (simp add: iss_main_def iss_loop_snoc)

lemma length_fill6: "length pv = 6 * n \<Longrightarrow> length (fill6 pv n s) = 6"
  by (cases n) (simp_all add: fill6_def length_state6 block6_def)

lemma iss_step_fill:
  assumes "length pv = 6 * n"
  shows "iss_step (t, pv) s = (t @ [s_jd s], pv @ fill6 pv n s)"
proof (cases n)
  case 0
  then show ?thesis using assms by (simp add: iss_step_def Let_def fill6_def)
next
  case (Suc k)
  then have ne: "pv \<noteq> []" using assms by auto
  have "last6 pv = block6 pv (n - 1)"
    using assms Suc by (simp add: last6_def block6_def)
  then show ?thesis using ne Suc by (simp add: iss_step_def Let_def fill6_def)
qed

lemma iss_main_shape:
  "fst (iss_main ss) = map s_jd ss \<and> length (snd (iss_main ss)) = 6 * length ss"
proof (induction ss rule: rev_induct)
  case Nil
  show ?case by (simp add: iss_main_def)
next
  case (snoc s ss)
  obtain t pv where st: "iss_main ss = (t, pv)" by (cases "iss_main ss")
  with snoc have t: "t = map s_jd ss" and pv: "length pv = 6 * length ss" by simp_all
  have "iss_main (ss @ [s]) = (t @ [s_jd s], pv @ fill6 pv (length ss) s)"
    unfolding iss_main_snoc st by (rule iss_step_fill [OF pv])
  then show ?case using t pv length_fill6 [OF pv, of s] by simp
qed

lemma iss_main_snoc_pv:
  "snd (iss_main (ss @ [s])) = snd (iss_main ss) @ fill6 (snd (iss_main ss)) (length ss) s"
proof -
  obtain t pv where st: "iss_main ss = (t, pv)" by (cases "iss_main ss")
  have pv: "length pv = 6 * length ss" using iss_main_shape [of ss] st by simp
  have "iss_main (ss @ [s]) = (t @ [s_jd s], pv @ fill6 pv (length ss) s)"
    unfolding iss_main_snoc st by (rule iss_step_fill [OF pv])
  then show ?thesis by (simp add: st)
qed

lemma iss_main_prefix:
  "take (6 * length ss) (snd (iss_main (ss @ rest))) = snd (iss_main ss)"
proof (induction rest rule: rev_induct)
  case Nil
  show ?case using iss_main_shape [of ss] by simp
next
  case (snoc r rest)
  have len: "length (snd (iss_main (ss @ rest))) = 6 * (length ss + length rest)"
    using iss_main_shape [of "ss @ rest"] by simp
  have "snd (iss_main (ss @ rest @ [r]))
      = snd (iss_main (ss @ rest)) @ fill6 (snd (iss_main (ss @ rest))) (length (ss @ rest)) r"
    using iss_main_snoc_pv [of "ss @ rest" r] by simp
  then show ?case using snoc len by simp
qed

lemma block6_prefix:
  "i < length ss \<Longrightarrow> block6 (snd (iss_main (ss @ rest))) i = block6 (snd (iss_main ss)) i"
proof -
  assume i: "i < length ss"
  have "block6 (take (6 * length ss) (snd (iss_main (ss @ rest)))) i = block6 (snd (iss_main (ss @ rest))) i"
    using i by (simp add: block6_def drop_take min_def)
  then show ?thesis by (simp add: iss_main_prefix)
qed

lemma block6_at:
  assumes i: "i < length ss"
  shows "block6 (snd (iss_main ss)) i = fill6 (snd (iss_main ss)) i (ss ! i)"
proof -
  have split: "ss = (take i ss @ [ss ! i]) @ drop (Suc i) ss"
    using i by (simp add: take_Suc_conv_app_nth [symmetric])
  have li: "length (take i ss) = i" using i by simp
  have shape: "length (snd (iss_main (take i ss))) = 6 * i"
    using iss_main_shape [of "take i ss"] li by simp
  have a: "block6 (snd (iss_main ss)) i = block6 (snd (iss_main (take i ss @ [ss ! i]))) i"
    using block6_prefix [of i "take i ss @ [ss ! i]" "drop (Suc i) ss"] split i by simp
  have b: "snd (iss_main (take i ss @ [ss ! i]))
      = snd (iss_main (take i ss)) @ fill6 (snd (iss_main (take i ss))) i (ss ! i)"
    using iss_main_snoc_pv [of "take i ss" "ss ! i"] li by simp
  have c: "block6 (snd (iss_main (take i ss @ [ss ! i]))) i = fill6 (snd (iss_main (take i ss))) i (ss ! i)"
    using shape length_fill6 [OF shape, of "ss ! i"] by (simp add: b block6_def)
  have d: "fill6 (snd (iss_main (take i ss))) i (ss ! i) = fill6 (snd (iss_main ss)) i (ss ! i)"
  proof (cases i)
    case 0
    then show ?thesis by (simp add: fill6_def)
  next
    case (Suc k)
    have "k < length (take i ss)" using Suc li by simp
    from block6_prefix [OF this, of "drop i ss"]
    have "block6 (snd (iss_main ss)) k = block6 (snd (iss_main (take i ss))) k" by simp
    then show ?thesis using Suc by (simp add: fill6_def)
  qed
  show ?thesis using a c d by simp
qed

text \<open>
  Claim C10. In the ISS generator, every propagation instant appends its timestamp; an
  instant where SGP4 returns a nonzero error code stores a copy of the previous
  sample's six state values (six zeros when there is no previous sample), an instant
  without error stores its own state. The loop has no error outcome, and the emitted
  lists always satisfy \<open>len(pv) = 6 * len(t_jd)\<close>.
\<close>

theorem iss_fill_consistent:
  "length (snd (iss_main ss)) = 6 * length (fst (iss_main ss))
   \<and> fst (iss_main ss) = map s_jd ss
   \<and> (\<forall>i < length ss. s_e (ss ! i) \<noteq> 0 \<longrightarrow>
         block6 (snd (iss_main ss)) i =
           (if i = 0 then [0, 0, 0, 0, 0, 0] else block6 (snd (iss_main ss)) (i - 1)))
   \<and> (\<forall>i < length ss. s_e (ss ! i) = 0 \<longrightarrow> block6 (snd (iss_main ss)) i = state6 (ss ! i))"
  using iss_main_shape [of ss] block6_at [of _ ss] by (simp add: fill6_def)

theorem iss_fill_consistent_witness:
  "map s_e iss_example = [1, 0, 6]
   \<and> iss_main iss_example
       = ([2, 3, 4], [0, 0, 0, 0, 0, 0, 1, 2, 3, 4, 5, 6, 1, 2, 3, 4, 5, 6])
   \<and> block6 (snd (iss_main iss_example)) 0 = [0, 0, 0, 0, 0, 0]
   \<and> block6 (snd (iss_main iss_example)) 2 = block6 (snd (iss_main iss_example)) 1
   \<and> block6 (snd (iss_main iss_example)) 1 = state6 (iss_example ! 1)"
  using iss_fill_consistent [of iss_example]
  by (simp add: iss_example_def iss_main_def iss_step_def last6_def state6_def block6_def)

section \<open>Properties of \<open>request_json\<close>\<close>

lemma upt_RETRIES: "[0..<RETRIES] = [0, 1, 2, 3, 4]"
  by (simp add: RETRIES_def upt_rec)

lemma juno_attempts: "attempts (request_json_juno get) \<le> 5"
  unfolding request_json_juno_def upt_RETRIES
  by (simp add: RETRIES_def split: sum.splits)

lemma juno_sleeps:
  "sleeps (request_json_juno get) =
     take (attempts (request_json_juno get) - 1) [18 / 10, 36 / 10, 72 / 10, 144 / 10]"
  unfolding request_json_juno_def upt_RETRIES
  by (simp add: RETRIES_def BACKOFF_S_juno_def split: sum.splits)

lemma juno_exhausted:
  "\<forall>i<5. get i = Inl (errs i) \<Longrightarrow>
   request_json_juno get = \<lparr>attempts = 5, sleeps = [18 / 10, 36 / 10, 72 / 10, 144 / 10],
      result = Inl (RuntimeError (''Horizons request failed: '' @ errs 4))\<rparr>"
  unfolding request_json_juno_def upt_RETRIES
  by (simp add: RETRIES_def BACKOFF_S_juno_def str_last_def)

lemma bennu_attempts: "attempts (request_json_bennu get) \<le> 5"
  unfolding request_json_bennu_def upt_RETRIES
  by (simp split: sum.splits)

lemma bennu_sleeps:
  "sleeps (request_json_bennu get) =
     take (if isl (result (request_json_bennu get)) then attempts (request_json_bennu get)
           else attempts (request_json_bennu get) - 1) [2, 4, 6, 8, 10]"
  unfolding request_json_bennu_def upt_RETRIES
  by (simp add: BACKOFF_S_bennu_def split: sum.splits)

lemma bennu_exhausted:
  "\<forall>i<5. get i = Inl (errs i) \<Longrightarrow>
   request_json_bennu get = \<lparr>attempts = 5, sleeps = [2, 4, 6, 8, 10],
      result = Inl (RuntimeError (''Horizons request failed after 5 retries: '' @ errs 4))\<rparr>"
  unfolding request_json_bennu_def upt_RETRIES
  by (simp add: BACKOFF_S_bennu_def str_last_def)

lemma sorted_take_bounded:
  fixes xs :: "real list"
  shows "sorted xs \<Longrightarrow> \<forall>d\<in>set xs. lo \<le> d \<and> d \<le> hi \<Longrightarrow>
     sorted (take k xs) \<and> (\<forall>d\<in>set (take k xs). lo \<le> d \<and> d \<le> hi)"
  by (auto simp: sorted_wrt_take dest: in_set_takeD)

text \<open>
  Claim C6. \<open>request_json\<close> makes at most \<open>RETRIES\<close> attempts; the delays it sleeps
  are non-decreasing and bounded (by 14.4 s in the Juno script, by 10 s in the Bennu
  script); when every attempt of the budget fails it raises a \<open>RuntimeError\<close> whose
  message ends with the text of the last underlying error.
\<close>

theorem request_json_bounded_retries:
  "attempts (request_json_juno get) \<le> RETRIES
   \<and> sorted (sleeps (request_json_juno get))
   \<and> (\<forall>d \<in> set (sleeps (request_json_juno get)). 0 \<le> d \<and> d \<le> 144 / 10)
   \<and> ((\<forall>i<RETRIES. get i = Inl (errs i)) \<longrightarrow>
        attempts (request_json_juno get) = RETRIES
        \<and> result (request_json_juno get)
            = Inl (RuntimeError (''Horizons request failed: '' @ errs (RETRIES - 1))))
   \<and> attempts (request_json_bennu get) \<le> RETRIES
   \<and> sorted (sleeps (request_json_bennu get))
   \<and> (\<forall>d \<in> set (sleeps (request_json_bennu get)). 0 \<le> d \<and> d \<le> 10)
   \<and> ((\<forall>i<RETRIES. get i = Inl (errs i)) \<longrightarrow>
        attempts (request_json_bennu get) = RETRIES
        \<and> result (request_json_bennu get)
            = Inl (RuntimeError (''Horizons request failed after 5 retries: '' @ errs (RETRIES - 1))))"
proof -
  have j: "sorted (sleeps (request_json_juno get))
      \<and> (\<forall>d \<in> set (sleeps (request_json_juno get)). 0 \<le> d \<and> d \<le> 144 / 10)"
    unfolding juno_sleeps by (rule sorted_take_bounded) simp_all
  have b: "sorted (sleeps (request_json_bennu get))
      \<and> (\<forall>d \<in> set (sleeps (request_json_bennu get)). 0 \<le> d \<and> d \<le> 10)"
    by (subst (1 2) bennu_sleeps, rule sorted_take_bounded) simp_all
  have je: "(\<forall>i<RETRIES. get i = Inl (errs i)) \<longrightarrow>
        attempts (request_json_juno get) = RETRIES
        \<and> result (request_json_juno get)
            = Inl (RuntimeError (''Horizons request failed: '' @ errs (RETRIES - 1)))"
    using juno_exhausted [of get errs] by (simp add: RETRIES_def)
  have be: "(\<forall>i<RETRIES. get i = Inl (errs i)) \<longrightarrow>
        attempts (request_json_bennu get) = RETRIES
        \<and> result (request_json_bennu get)
            = Inl (RuntimeError (''Horizons request failed after 5 retries: '' @ errs (RETRIES - 1)))"
    using bennu_exhausted [of get errs] by (simp add: RETRIES_def)
  show ?thesis
    using j b je be juno_attempts [of get] bennu_attempts [of get]
    by (simp add: RETRIES_def)
qed

theorem request_json_bounded_retries_witness:
  "attempts (request_json_juno (\<lambda>i. Inl ''timeout'' :: string + unit)) = 5
   \<and> sleeps (request_json_juno (\<lambda>i. Inl ''timeout'' :: string + unit))
        = [18 / 10, 36 / 10, 72 / 10, 144 / 10]
   \<and> result (request_json_juno (\<lambda>i. Inl ''timeout'' :: string + unit))
        = Inl (RuntimeError ''Horizons request failed: timeout'')
   \<and> attempts (request_json_bennu (\<lambda>i. Inl ''timeout'' :: string + unit)) = 5
   \<and> sleeps (request_json_bennu (\<lambda>i. Inl ''timeout'' :: string + unit)) = [2, 4, 6, 8, 10]
   \<and> result (request_json_bennu (\<lambda>i. Inl ''timeout'' :: string + unit))
        = Inl (RuntimeError ''Horizons request failed after 5 retries: timeout'')"
  using request_json_bounded_retries [of "\<lambda>i. Inl ''timeout'' :: string + unit" "\<lambda>i. ''timeout''"]
  unfolding request_json_juno_def request_json_bennu_def upt_RETRIES
  by (simp add: RETRIES_def BACKOFF_S_juno_def BACKOFF_S_bennu_def str_last_def)

section \<open>Properties of the grid validation\<close>

lemma grid_pairs_ok:
  "grid_pairs msg ps = Inr () \<longleftrightarrow> (\<forall>(a, b) \<in> set ps. \<bar>a - b\<bar> \<le> TOL)"
  by (induction ps) (auto split: if_splits)

lemma grid_pairs_err:
  "grid_pairs msg ps = Inr () \<or> grid_pairs msg ps = Inl (RuntimeError msg)"
  by (induction ps) (auto split: if_splits)

lemma zip_all_nth:
  "length xs = length ys \<Longrightarrow>
   (\<forall>(a, b) \<in> set (zip xs ys). P a b) \<longleftrightarrow> (\<forall>i < length xs. P (xs ! i) (ys ! i))"
  by (auto simp: set_zip)

lemma grid_check_juno_ok:
  "grid_check_juno name t r = Inr () \<longleftrightarrow>
     length t = length r \<and> (\<forall>i < length t. \<bar>t ! i - r ! i\<bar> \<le> TOL)"
  by (simp add: grid_check_juno_def grid_pairs_ok zip_all_nth)

lemma grid_check_bennu_ok:
  "grid_check_bennu name t r = Inr () \<longleftrightarrow>
     length t = length r \<and> (\<forall>i < length t. \<bar>t ! i - r ! i\<bar> \<le> TOL)"
  by (simp add: grid_check_bennu_def grid_pairs_ok zip_all_nth)

lemma grid_check_juno_err:
  "grid_check_juno name t r = Inr ()
   \<or> grid_check_juno name t r = Inl (RuntimeError (''Time grid mismatch: '' @ name))"
  using grid_pairs_err [of "''Time grid mismatch: '' @ name" "zip t r"]
  by (simp add: grid_check_juno_def)

lemma grid_check_bennu_err:
  "grid_check_bennu name t r = Inr ()
   \<or> grid_check_bennu name t r = Inl (RuntimeError (''Time grid mismatch for '' @ name))"
  using grid_pairs_err [of "''Time grid mismatch for '' @ name" "zip t r"]
  by (simp add: grid_check_bennu_def)

lemma main_bodies_trace:
  "\<exists>k \<le> length bs. fst (main_bodies check fetch bs tr st) = tr @ take k (map snd bs)"
proof (induction bs arbitrary: tr st)
  case Nil
  show ?case by simp
next
  case (Cons b bs)
  obtain name spkid where b: "b = (name, spkid)" by (cases b)
  have one: "tr @ [spkid] = tr @ take (Suc 0) (map snd (b # bs))" by (simp add: b)
  have more: "\<exists>k \<le> length (b # bs).
      fst (main_bodies check fetch bs (tr @ [spkid]) st') = tr @ take k (map snd (b # bs))" for st'
  proof -
    from Cons [of "tr @ [spkid]" st'] obtain k where
      k: "k \<le> length bs" "fst (main_bodies check fetch bs (tr @ [spkid]) st') = (tr @ [spkid]) @ take k (map snd bs)"
      by blast
    then have "fst (main_bodies check fetch bs (tr @ [spkid]) st') = tr @ take (Suc k) (map snd (b # bs))"
      by (simp add: b)
    with k(1) show ?thesis by (intro exI [of _ "Suc k"]) simp
  qed
  show ?case
  proof (cases "fetch spkid")
    case (Inl e)
    then show ?thesis using one by (intro exI [of _ "Suc 0"]) (simp add: b)
  next
    case (Inr tp)
    obtain t pv where tp: "tp = (t, pv)" by (cases tp)
    show ?thesis
    proof (cases "t_ref st")
      case None
      then show ?thesis using Inr tp more by (simp add: b)
    next
      case (Some r)
      show ?thesis
      proof (cases "check name t r")
        case (Inl e)
        then show ?thesis using Inr tp Some one by (intro exI [of _ "Suc 0"]) (simp add: b)
      next
        case (Inr u)
        then show ?thesis using \<open>fetch spkid = Inr tp\<close> tp Some more by (simp add: b)
      qed
    qed
  qed
qed

text \<open>
  Claim C8 (as amended). In the Juno and Bennu generators the grid validation of a body
  succeeds exactly when its time list has the length of the reference list and every
  pair of timestamps differs by at most \<open>1e-10\<close>; otherwise it raises an error whose
  message names that body. In generate\_ephemeris.py only the lengths are compared and
  the message is a constant. In each script the error leaves the loop at the offending
  body: no later body is fetched and no body is fetched twice.
\<close>

theorem grid_validation:
  "(grid_check_juno name t r = Inr () \<longleftrightarrow>
      length t = length r \<and> (\<forall>i < length t. \<bar>t ! i - r ! i\<bar> \<le> TOL))
   \<and> (grid_check_juno name t r = Inr ()
        \<or> grid_check_juno name t r = Inl (RuntimeError (''Time grid mismatch: '' @ name)))
   \<and> (grid_check_bennu name t r = Inr () \<longleftrightarrow>
      length t = length r \<and> (\<forall>i < length t. \<bar>t ! i - r ! i\<bar> \<le> TOL))
   \<and> (grid_check_bennu name t r = Inr ()
        \<or> grid_check_bennu name t r = Inl (RuntimeError (''Time grid mismatch for '' @ name)))
   \<and> (grid_check_voyager name t r = Inr () \<longleftrightarrow> length t = length r)
   \<and> (grid_check_voyager name t r = Inr ()
        \<or> grid_check_voyager name t r = Inl (RuntimeError ''Time grid mismatch in multi ephemeris.''))
   \<and> (fetch spkid = Inr (t, pv) \<and> t_ref st = Some r \<and> check name t r = Inl e \<longrightarrow>
        main_bodies check fetch ((name, spkid) # bs) tr st = (tr @ [spkid], Inl e))
   \<and> (\<exists>k \<le> length bs. fst (main_bodies check fetch bs [] st) = take k (map snd bs))"
proof -
  have v: "(grid_check_voyager name t r = Inr () \<longleftrightarrow> length t = length r)
      \<and> (grid_check_voyager name t r = Inr ()
        \<or> grid_check_voyager name t r = Inl (RuntimeError ''Time grid mismatch in multi ephemeris.''))"
    by (simp add: grid_check_voyager_def)
  have m: "fetch spkid = Inr (t, pv) \<and> t_ref st = Some r \<and> check name t r = Inl e \<longrightarrow>
        main_bodies check fetch ((name, spkid) # bs) tr st = (tr @ [spkid], Inl e)"
    by simp
  have tr: "\<exists>k \<le> length bs. fst (main_bodies check fetch bs [] st) = take k (map snd bs)"
    using main_bodies_trace [of bs check fetch "[]" st] by simp
  show ?thesis
    using grid_check_juno_ok [of name t r] grid_check_juno_err [of name t r]
      grid_check_bennu_ok [of name t r] grid_check_bennu_err [of name t r] v m tr
    by blast
qed

theorem grid_validation_witness:
  "grid_check_juno ''Mercury'' [24588495 / 10, 24588506 / 10] [24588495 / 10, 24588505 / 10]
     = Inl (RuntimeError ''Time grid mismatch: Mercury'')
   \<and> grid_check_juno ''Venus'' [24588495 / 10, 24588505 / 10] [24588495 / 10, 24588505 / 10] = Inr ()
   \<and> main_bodies grid_check_juno fetch_example MAJOR_BODIES [] grid_init
       = ([10, 199], Inl (RuntimeError ''Time grid mismatch: Mercury''))
   \<and> main_bodies grid_check_bennu fetch_example MAJOR_BODIES [] grid_init
       = ([10, 199], Inl (RuntimeError ''Time grid mismatch for Mercury''))"
  using grid_validation [of "''Mercury''" "[24588495 / 10, 24588506 / 10]" "[24588495 / 10, 24588505 / 10]"
      fetch_example 199 "[0, 0, 0, 0, 0, 0, 0, 0, 0, 0, 0, 0]"
      "grid_init\<lparr>t_ref := Some [24588495 / 10, 24588505 / 10]\<rparr>" grid_check_juno
      "RuntimeError ''Time grid mismatch: Mercury''" "tl (tl MAJOR_BODIES)" "[10]"]
  by (simp add: grid_check_juno_def grid_check_bennu_def TOL_def fetch_example_def MAJOR_BODIES_def
      grid_init_def)

text \<open>
  The Voyager generator accepts a candidate grid whose second timestamp is a tenth of a
  day off the reference, and its mismatch message does not name the body.
\<close>

theorem grid_validation_voyager_counterexample:
  "grid_check_voyager ''Mercury'' [24588495 / 10, 24588506 / 10] [24588495 / 10, 24588505 / 10] = Inr ()
   \<and> \<bar>24588506 / 10 - 24588505 / 10\<bar> > TOL
   \<and> grid_check_voyager ''Mercury'' [24588495 / 10] [24588495 / 10, 24588505 / 10]
       = Inl (RuntimeError ''Time grid mismatch in multi ephemeris.'')"
  by (simp add: grid_check_voyager_def TOL_def)

section \<open>Properties of the stitching step\<close>

lemma skip_idx_eq:
  "idx0 \<le> length t \<Longrightarrow>
   skip_idx t lst idx0 = idx0 + length (takeWhile (\<lambda>x. x \<le> lst + TOL) (drop idx0 t))"
proof (induction t lst idx0 rule: skip_idx.induct)
  case (1 t lst idx0)
  show ?case
  proof (cases "idx0 < length t \<and> t ! idx0 \<le> lst + TOL")
    case True
    then have d: "drop idx0 t = t ! idx0 # drop (Suc idx0) t"
      by (simp add: Cons_nth_drop_Suc)
    from True "1.IH" have "skip_idx t lst (idx0 + 1)
        = idx0 + 1 + length (takeWhile (\<lambda>x. x \<le> lst + TOL) (drop (idx0 + 1) t))"
      by simp
    then show ?thesis using True d by (subst skip_idx.simps) simp
  next
    case False
    show ?thesis
    proof (cases "idx0 < length t")
      case True
      then have d: "drop idx0 t = t ! idx0 # drop (Suc idx0) t"
        by (simp add: Cons_nth_drop_Suc)
      from True False show ?thesis by (subst skip_idx.simps) (simp add: d)
    next
      case False
      with "1.prems" show ?thesis by (subst skip_idx.simps) simp
    qed
  qed
qed

lemma stitch_juno_dropWhile:
  assumes "acc_t \<noteq> []"
  shows "stitch_juno (acc_t, acc_pv) (t, pv) =
     (acc_t @ dropWhile (\<lambda>x. x \<le> last acc_t + TOL) t,
      if dropWhile (\<lambda>x. x \<le> last acc_t + TOL) t = [] then acc_pv
      else acc_pv @ drop (6 * length (takeWhile (\<lambda>x. x \<le> last acc_t + TOL) t)) pv)"
proof -
  let ?P = "\<lambda>x. x \<le> last acc_t + TOL"
  have k: "skip_idx t (last acc_t) 0 = length (takeWhile ?P t)"
    using skip_idx_eq [of 0 t "last acc_t"] by simp
  have d: "drop (length (takeWhile ?P t)) t = dropWhile ?P t"
    by (rule dropWhile_eq_drop [symmetric])
  have e: "length (takeWhile ?P t) < length t \<longleftrightarrow> dropWhile ?P t \<noteq> []"
    by (metis d drop_eq_Nil2 leD leI length_takeWhile_le)
  show ?thesis using assms k d e
    by (simp add: stitch_juno_def Let_def mult.commute)
qed


lemma TOL_pos: "0 < TOL"
  by (simp add: TOL_def)

lemma sorted_dropWhile_above:
  fixes t :: "real list"
  assumes "sorted t" "x \<in> set (dropWhile (\<lambda>y. y \<le> c) t)"
  shows "c < x"
  using assms
proof (induction t)
  case Nil
  then show ?case by simp
next
  case (Cons a t)
  show ?case
  proof (cases "a \<le> c")
    case True
    with Cons show ?thesis by simp
  next
    case False
    with Cons.prems show ?thesis by auto
  qed
qed

lemma count_list_distinct:
  "distinct xs \<Longrightarrow> x \<in> set xs \<Longrightarrow> count_list xs x = 1"
  by (induction xs) auto

lemma count_list_last_strict:
  fixes xs :: "real list"
  assumes "sorted_wrt (<) xs" "xs \<noteq> []"
  shows "count_list xs (last xs) = 1"
proof -
  have "distinct xs" using assms(1) by (simp add: strict_sorted_iff)
  moreover have "last xs \<in> set xs" using assms(2) by simp
  ultimately show ?thesis by (simp add: count_list_distinct)
qed

lemma stitch_juno_once:
  assumes "acc_t \<noteq> []" "sorted_wrt (<) acc_t" "sorted t"
  shows "count_list (fst (stitch_juno (acc_t, acc_pv) (t, pv))) (last acc_t) = 1"
proof -
  let ?P = "\<lambda>x. x \<le> last acc_t + TOL"
  have "last acc_t \<notin> set (dropWhile ?P t)"
    using sorted_dropWhile_above [OF assms(3), of "last acc_t" "last acc_t + TOL"] TOL_pos
    by auto
  then have "count_list (dropWhile ?P t) (last acc_t) = 0"
    by (simp add: count_list_0_iff)
  then show ?thesis
    using count_list_last_strict [OF assms(2,1)]
    by (simp add: stitch_juno_dropWhile [OF assms(1)])
qed

lemma stitch_bennu_once:
  assumes "t_all \<noteq> []" "sorted_wrt (<) t_all" "sorted_wrt (<) t" "t \<noteq> []" "hd t = last t_all"
  shows "count_list (fst (stitch_bennu (t_all, pv_all) (t, pv))) (last t_all) = 1"
proof -
  obtain a ts where t: "t = a # ts" using assms(4) by (cases t) auto
  have "a \<notin> set ts" using assms(3) t by auto
  then have "count_list ts (last t_all) = 0"
    using assms(5) t by (simp add: count_list_0_iff)
  then show ?thesis
    using count_list_last_strict [OF assms(2,1)] assms(1,5) t TOL_pos
    by (simp add: stitch_bennu_def)
qed

text \<open>
  Claim C2 (as amended). In the Juno and Explorer schedulers, stitching a window onto a
  non-empty accumulated series drops every leading sample whose timestamp is at most
  the last accepted timestamp plus \<open>1e-10\<close>, together with its six vector fields. The
  Bennu scheduler drops only the first sample of the window, and only when it lies
  within \<open>1e-10\<close> of the last accepted timestamp. In both, when the accumulated series
  and the window are strictly increasing and share the boundary instant, the assembled
  series holds that instant exactly once.
\<close>

theorem stitch_boundary:
  "(acc_t \<noteq> [] \<longrightarrow>
      stitch_juno (acc_t, acc_pv) (t, pv) =
        (acc_t @ dropWhile (\<lambda>x. x \<le> last acc_t + TOL) t,
         if dropWhile (\<lambda>x. x \<le> last acc_t + TOL) t = [] then acc_pv
         else acc_pv @ drop (6 * length (takeWhile (\<lambda>x. x \<le> last acc_t + TOL) t)) pv))
   \<and> (acc_t \<noteq> [] \<and> sorted_wrt (<) acc_t \<and> sorted t \<longrightarrow>
        count_list (fst (stitch_juno (acc_t, acc_pv) (t, pv))) (last acc_t) = 1)
   \<and> (acc_t \<noteq> [] \<and> t \<noteq> [] \<and> \<bar>hd t - last acc_t\<bar> < TOL \<longrightarrow>
        stitch_bennu (acc_t, acc_pv) (t, pv) = (acc_t @ tl t, acc_pv @ drop 6 pv))
   \<and> (\<not> (acc_t \<noteq> [] \<and> t \<noteq> [] \<and> \<bar>hd t - last acc_t\<bar> < TOL) \<longrightarrow>
        stitch_bennu (acc_t, acc_pv) (t, pv) = (acc_t @ t, acc_pv @ pv))
   \<and> (acc_t \<noteq> [] \<and> sorted_wrt (<) acc_t \<and> sorted_wrt (<) t \<and> t \<noteq> [] \<and> hd t = last acc_t \<longrightarrow>
        count_list (fst (stitch_bennu (acc_t, acc_pv) (t, pv))) (last acc_t) = 1)"
proof -
  have b1: "acc_t \<noteq> [] \<and> t \<noteq> [] \<and> \<bar>hd t - last acc_t\<bar> < TOL \<longrightarrow>
        stitch_bennu (acc_t, acc_pv) (t, pv) = (acc_t @ tl t, acc_pv @ drop 6 pv)"
    by (simp add: stitch_bennu_def drop_Suc)
  have b2: "\<not> (acc_t \<noteq> [] \<and> t \<noteq> [] \<and> \<bar>hd t - last acc_t\<bar> < TOL) \<longrightarrow>
        stitch_bennu (acc_t, acc_pv) (t, pv) = (acc_t @ t, acc_pv @ pv)"
    by (auto simp: stitch_bennu_def)
  show ?thesis
    using stitch_juno_dropWhile [of acc_t acc_pv t pv] stitch_juno_once [of acc_t t acc_pv pv]
      stitch_bennu_once [of acc_t t acc_pv pv] b1 b2
    by blast
qed


theorem stitch_boundary_witness:
  "stitch_juno ([1, 2, 3], [11, 12, 13, 14, 15, 16, 21, 22, 23, 24, 25, 26, 31, 32, 33, 34, 35, 36])
       ([3, 4], [31, 32, 33, 34, 35, 36, 41, 42, 43, 44, 45, 46])
     = ([1, 2, 3, 4],
        [11, 12, 13, 14, 15, 16, 21, 22, 23, 24, 25, 26, 31, 32, 33, 34, 35, 36, 41, 42, 43, 44, 45, 46])
   \<and> stitch_bennu ([1, 2, 3], [11, 12, 13, 14, 15, 16, 21, 22, 23, 24, 25, 26, 31, 32, 33, 34, 35, 36])
       ([3, 4], [31, 32, 33, 34, 35, 36, 41, 42, 43, 44, 45, 46])
     = ([1, 2, 3, 4],
        [11, 12, 13, 14, 15, 16, 21, 22, 23, 24, 25, 26, 31, 32, 33, 34, 35, 36, 41, 42, 43, 44, 45, 46])
   \<and> count_list [1, 2, 3, 4 :: real] 3 = 1
   \<and> stitch_bennu ([], []) ([3, 4], [31, 32, 33, 34, 35, 36, 41, 42, 43, 44, 45, 46])
     = ([3, 4], [31, 32, 33, 34, 35, 36, 41, 42, 43, 44, 45, 46])"
  using stitch_boundary [of "[1, 2, 3]" "[11, 12, 13, 14, 15, 16, 21, 22, 23, 24, 25, 26, 31, 32, 33, 34, 35, 36]"
      "[3, 4]" "[31, 32, 33, 34, 35, 36, 41, 42, 43, 44, 45, 46]"]
    stitch_boundary [of "[]" "[]"
      "[3, 4]" "[31, 32, 33, 34, 35, 36, 41, 42, 43, 44, 45, 46]"]
  by (simp add: TOL_def)

text \<open>
  A window that overlaps the accumulated series by two samples: the Bennu scheduler
  keeps both, though each is at most the last accepted timestamp.
\<close>

theorem stitch_bennu_counterexample:
  "fst (stitch_bennu ([1, 2, 3], [11, 12, 13, 14, 15, 16, 21, 22, 23, 24, 25, 26, 31, 32, 33, 34, 35, 36])
       ([2, 3, 4], [21, 22, 23, 24, 25, 26, 31, 32, 33, 34, 35, 36, 41, 42, 43, 44, 45, 46]))
     = [1, 2, 3, 2, 3, 4]
   \<and> (2 :: real) \<le> 3 + TOL
   \<and> fst (stitch_juno ([1, 2, 3], [11, 12, 13, 14, 15, 16, 21, 22, 23, 24, 25, 26, 31, 32, 33, 34, 35, 36])
       ([2, 3, 4], [21, 22, 23, 24, 25, 26, 31, 32, 33, 34, 35, 36, 41, 42, 43, 44, 45, 46]))
     = [1, 2, 3, 4]"
  by (simp add: stitch_bennu_def stitch_juno_def TOL_def)

section \<open>Properties of the sample parsers\<close>

lemma floats_length: "floats to_float xs = Some vs \<Longrightarrow> length vs = length xs"
  by (induction xs arbitrary: vs) (auto split: option.splits)

lemma unpack6_floats:
  "floats to_float (map d_to_e xs) = Some vals \<Longrightarrow> length xs = 6 \<Longrightarrow> unpack6 jd vals = Sample jd vals"
  by (drule floats_length) (simp add: unpack6_def)

lemma csv_row_juno_eq:
  "csv_row_juno to_float line =
     (let parts = csv_parts_juno line; k = (if 8 \<le> length parts then 2 else 1) in
      if parts \<noteq> [] \<and> starts_with_digit (hd parts) \<and> k + 6 \<le> length parts
      then (case to_float (hd parts) of
              None \<Rightarrow> Skip
            | Some jd \<Rightarrow>
                (case floats to_float (map d_to_e (take 6 (drop k parts))) of
                   None \<Rightarrow> Skip
                 | Some vals \<Rightarrow> Sample jd vals))
      else Skip)"
  by (auto simp: csv_row_juno_def Let_def split: option.splits intro!: unpack6_floats)

lemma ws_row_juno_eq:
  "ws_row_juno to_float line =
     (let fields = split_ws line in
      if starts_with_digit line \<and> 7 \<le> length fields
      then (case to_float (hd fields) of
              None \<Rightarrow> Skip
            | Some jd \<Rightarrow>
                (case floats to_float (map d_to_e (drop (length fields - 6) fields)) of
                   None \<Rightarrow> Skip
                 | Some vals \<Rightarrow> Sample jd vals))
      else Skip)"
  by (auto simp: ws_row_juno_def Let_def split: option.splits intro!: unpack6_floats)

lemma line_bennu_eq:
  "line_bennu to_float raw =
     (let line = strip raw; parts = map strip (split_on CHR '','' line) in
      if line \<noteq> [] \<and> CHR '','' \<in> set line \<and> 8 \<le> length parts
      then (case to_float (hd parts) of
              None \<Rightarrow> Skip
            | Some jd \<Rightarrow>
                (case floats to_float (map d_to_e (take 6 (drop 2 parts))) of
                   None \<Rightarrow> Skip
                 | Some vals \<Rightarrow> Sample jd vals))
      else Skip)"
  by (auto simp: line_bennu_def Let_def split: option.splits intro!: unpack6_floats)

lemma sample_six_juno:
  "line_juno to_float raw = Sample jd vals \<Longrightarrow> length vals = 6"
  "line_juno to_float raw \<noteq> Raise ex"
  by (auto simp: line_juno_def csv_row_juno_eq ws_row_juno_eq Let_def
      split: option.splits if_splits dest!: floats_length)

lemma sample_six_bennu:
  "line_bennu to_float raw = Sample jd vals \<Longrightarrow> length vals = 6"
  "line_bennu to_float raw \<noteq> Raise ex"
  by (auto simp: line_bennu_eq Let_def split: option.splits if_splits dest!: floats_length)

lemma rows_loop_six:
  assumes "\<And>raw jd vals. f raw = Sample jd vals \<Longrightarrow> length vals = 6"
    and "\<And>raw ex. f raw \<noteq> Raise ex"
    and "length (snd acc) = length (fst acc) * 6"
  shows "\<exists>t pv. rows_loop f raws acc = Inr (t, pv) \<and> length pv = length t * 6"
  using assms(3)
proof (induction raws arbitrary: acc)
  case Nil
  then show ?case by (cases acc) simp
next
  case (Cons raw raws)
  show ?case
  proof (cases "f raw")
    case Skip
    then show ?thesis using Cons by simp
  next
    case (Sample jd vals)
    have "length (snd (fst acc @ [jd], snd acc @ vals)) = length (fst (fst acc @ [jd], snd acc @ vals)) * 6"
      using assms(1) [OF Sample] Cons.prems by simp
    from Cons.IH [OF this] show ?thesis using Sample by simp
  next
    case (Raise ex)
    then show ?thesis using assms(2) by blast
  qed
qed

lemma parse_vectors_with_six:
  assumes "\<And>raw jd vals. f raw = Sample jd vals \<Longrightarrow> length vals = 6"
    and "\<And>raw ex. f raw \<noteq> Raise ex"
  shows "\<exists>t pv. rows_loop f (splitlines block) ([], []) = Inr (t, pv)
      \<and> length pv = length t * 6
      \<and> parse_vectors_with f block =
          (if length t < 2 \<or> length pv \<noteq> length t * 6
           then Inl (RuntimeError (''Parsed too few samples. Preview:'' @ CHR 0x0A # preview block))
           else Inr (t, pv))"
proof -
  have "\<exists>t pv. rows_loop f (splitlines block) ([], []) = Inr (t, pv) \<and> length pv = length t * 6"
    by (rule rows_loop_six) (use assms in auto)
  then obtain t pv where r: "rows_loop f (splitlines block) ([], []) = Inr (t, pv)" "length pv = length t * 6"
    by auto
  then show ?thesis
    by (simp add: parse_vectors_with_def parse_guard_def too_few_def)
qed

lemma voyager_group_floats_len:
  "group_floats to_float m is = Inr vs \<Longrightarrow> length vs = length is"
  by (induction "is" arbitrary: vs) (auto split: sum.splits)

lemma voyager_loop_six:
  "voyager_loop to_float ms acc = Inr (t, pv) \<Longrightarrow> length (snd acc) = length (fst acc) * 6 \<Longrightarrow>
   length pv = length t * 6"
proof (induction ms arbitrary: acc)
  case Nil
  then show ?case by auto
next
  case (Cons m ms)
  from Cons.prems(1) obtain vs where vs: "group_floats to_float m [1, 2, 3, 4, 5, 6, 7] = Inr vs"
    and rest: "voyager_loop to_float ms (fst acc @ [hd vs], snd acc @ tl vs) = Inr (t, pv)"
    by (auto split: sum.splits)
  have "length vs = 7" using voyager_group_floats_len [OF vs] by simp
  then have "length (snd (fst acc @ [hd vs], snd acc @ tl vs))
      = length (fst (fst acc @ [hd vs], snd acc @ tl vs)) * 6"
    using Cons.prems(2) by simp
  from Cons.IH [OF rest this] show ?case .
qed

subsection \<open>The parsers on three blocks\<close>

lemma block_ok_lines: "splitlines block_ok = [''2458849.5,1,2,3,4,5,6'', ''2458850.5,1.5,2,3,4,5,6'', ''2458851.5,2,2,3,4,5,6'']"
  by code_simp

lemma block_bad_lines: "splitlines block_bad = [''No ephemeris for target'', ''2458849.5,1,2,3,4,5,6'']"
  by code_simp

lemma strip1: "strip ''2458849.5,1,2,3,4,5,6'' = ''2458849.5,1,2,3,4,5,6''"
  and strip2: "strip ''2458850.5,1.5,2,3,4,5,6'' = ''2458850.5,1.5,2,3,4,5,6''"
  and strip3: "strip ''2458851.5,2,2,3,4,5,6'' = ''2458851.5,2,2,3,4,5,6''"
  and strip4: "strip ''No ephemeris for target'' = ''No ephemeris for target''"
  by code_simp+

lemma parts1: "csv_parts_juno ''2458849.5,1,2,3,4,5,6'' = [''2458849.5'', ''1'', ''2'', ''3'', ''4'', ''5'', ''6'']"
  and parts2: "csv_parts_juno ''2458850.5,1.5,2,3,4,5,6'' = [''2458850.5'', ''1.5'', ''2'', ''3'', ''4'', ''5'', ''6'']"
  and parts3: "csv_parts_juno ''2458851.5,2,2,3,4,5,6'' = [''2458851.5'', ''2'', ''2'', ''3'', ''4'', ''5'', ''6'']"
  by code_simp+

lemma bparts1: "map strip (split_on CHR '','' ''2458849.5,1,2,3,4,5,6'') = [''2458849.5'', ''1'', ''2'', ''3'', ''4'', ''5'', ''6'']"
  and bparts2: "map strip (split_on CHR '','' ''2458850.5,1.5,2,3,4,5,6'') = [''2458850.5'', ''1.5'', ''2'', ''3'', ''4'', ''5'', ''6'']"
  and bparts3: "map strip (split_on CHR '','' ''2458851.5,2,2,3,4,5,6'') = [''2458851.5'', ''2'', ''2'', ''3'', ''4'', ''5'', ''6'']"
  by code_simp+

lemma blen1: "length (split_on CHR '','' ''2458849.5,1,2,3,4,5,6'') = 7"
  and blen2: "length (split_on CHR '','' ''2458850.5,1.5,2,3,4,5,6'') = 7"
  and blen3: "length (split_on CHR '','' ''2458851.5,2,2,3,4,5,6'') = 7"
  by code_simp+

lemma row1: "line_juno dec_float ''2458849.5,1,2,3,4,5,6'' = Sample (24588495 / 10) [1, 2, 3, 4, 5, 6]"
  by (simp add: line_juno_def strip1 csv_row_juno_eq parts1 starts_with_digit_def is_digit_def
      dec_float_def d_to_e_def)

lemma row2: "line_juno dec_float ''2458850.5,1.5,2,3,4,5,6'' = Sample (24588505 / 10) [15 / 10, 2, 3, 4, 5, 6]"
  by (simp add: line_juno_def strip2 csv_row_juno_eq parts2 starts_with_digit_def is_digit_def
      dec_float_def d_to_e_def)

lemma row3: "line_juno dec_float ''2458851.5,2,2,3,4,5,6'' = Sample (24588515 / 10) [2, 2, 3, 4, 5, 6]"
  by (simp add: line_juno_def strip3 csv_row_juno_eq parts3 starts_with_digit_def is_digit_def
      dec_float_def d_to_e_def)

lemma row4: "line_juno dec_float ''No ephemeris for target'' = Skip"
  by (simp add: line_juno_def strip4 ws_row_juno_eq starts_with_digit_def is_digit_def)

lemma brow1: "line_bennu dec_float ''2458849.5,1,2,3,4,5,6'' = Skip"
  and brow2: "line_bennu dec_float ''2458850.5,1.5,2,3,4,5,6'' = Skip"
  and brow3: "line_bennu dec_float ''2458851.5,2,2,3,4,5,6'' = Skip"
  by (simp_all add: line_bennu_eq strip1 strip2 strip3 bparts1 bparts2 bparts3 blen1 blen2 blen3)

lemma preview_ok: "preview block_ok = block_ok"
  unfolding preview_def block_ok_lines by (simp add: block_ok_def)

lemma preview_bad: "preview block_bad = block_bad"
  unfolding preview_def block_bad_lines by (simp add: block_bad_def)

lemma voyager_bad: "voyager_parse dec_float block_bad
    = Inl (RuntimeError ''Parsed too few samples from Horizons output.'')"
  by code_simp

lemma not_contains_bad: "\<not> contains ''Parsed too few samples from Horizons output.'' block_bad"
  by code_simp

lemma juno_bad_rows:
  "rows_loop (line_juno dec_float) (splitlines block_bad) ([], []) = Inr ([24588495 / 10], [1, 2, 3, 4, 5, 6])"
  by (simp add: block_bad_lines row1 row4)

lemma juno_ok_rows:
  "rows_loop (line_juno dec_float) (splitlines block_ok) ([], [])
     = Inr ([24588495 / 10, 24588505 / 10, 24588515 / 10],
            [1, 2, 3, 4, 5, 6, 15 / 10, 2, 3, 4, 5, 6, 2, 2, 3, 4, 5, 6])"
  by (simp add: block_ok_lines row1 row2 row3)

lemma bennu_ok_rows:
  "rows_loop (line_bennu dec_float) (splitlines block_ok) ([], []) = Inr ([], [])"
  by (simp add: block_ok_lines brow1 brow2 brow3)

lemma voyager_bad_rows:
  "voyager_loop dec_float (finditer True ROW_RE (voyager_flat block_bad)) ([], []) = Inr ([], [])"
  by code_simp

lemma voyager_matches:
  "finditer True ROW_RE (voyager_flat block_voyager) =
     [('',  2443393.5, A.D. 1977-Sep-06 12:00, 1.5, 2, 3, 4, 5, 6, '',
       [(7, ''6''), (6, ''5''), (5, ''4''), (4, ''3''), (3, ''2''), (2, ''1''), (1, ''2443392.5'')]),
      ('', '',
       [(7, ''6''), (6, ''5''), (5, ''4''), (4, ''3''), (3, ''2''), (2, ''1.5''), (1, ''2443393.5'')])]"
  by code_simp

lemma voyager_ok_rows:
  "voyager_loop dec_float (finditer True ROW_RE (voyager_flat block_voyager)) ([], [])
     = Inr ([24433925 / 10, 24433935 / 10], [1, 2, 3, 4, 5, 6, 15 / 10, 2, 3, 4, 5, 6])"
  unfolding voyager_matches
  by (simp add: group_float_def group_def dec_float_def is_digit_def)

lemma voyager_ok:
  "voyager_parse dec_float block_voyager
     = Inr ([24433925 / 10, 24433935 / 10], [1, 2, 3, 4, 5, 6, 15 / 10, 2, 3, 4, 5, 6])"
  unfolding voyager_parse_def voyager_ok_rows by simp

text \<open>
  Claim C3. For every block, \<open>parse_vectors\<close> of generate\_ephemeris\_juno.py and of
  generate\_ephemeris\_bennu.py runs its loop to the end, the vector fields it has gathered
  are six times the timestamps, and it raises exactly when fewer than two samples were
  gathered (or the counts disagree); the message of the error then ends with the first 25
  lines of the block. The inline parser of Ephemeris/scripts/generate\_ephemeris.py
  returns only series of two samples or more with six fields each, and when it has matched
  fewer than two rows it raises an error with a constant message, which holds no preview
  of the block.
\<close>

theorem parse_vectors_error_cases:
  "(\<exists>t pv. rows_loop (line_juno to_float) (splitlines block) ([], []) = Inr (t, pv)
      \<and> length pv = length t * 6
      \<and> parse_vectors_juno to_float block =
          (if length t < 2 \<or> length pv \<noteq> length t * 6
           then Inl (RuntimeError (''Parsed too few samples. Preview:'' @ CHR 0x0A # preview block))
           else Inr (t, pv)))
   \<and> (\<exists>t pv. rows_loop (line_bennu to_float) (splitlines block) ([], []) = Inr (t, pv)
      \<and> length pv = length t * 6
      \<and> parse_vectors_bennu to_float block =
          (if length t < 2 \<or> length pv \<noteq> length t * 6
           then Inl (RuntimeError (''Parsed too few samples. Preview:'' @ CHR 0x0A # preview block))
           else Inr (t, pv)))
   \<and> (\<forall>t pv. voyager_parse to_float block = Inr (t, pv) \<longrightarrow> 2 \<le> length t \<and> length pv = length t * 6)
   \<and> (\<forall>t pv. voyager_loop to_float (finditer True ROW_RE (voyager_flat block)) ([], []) = Inr (t, pv)
        \<and> length t < 2 \<longrightarrow>
        voyager_parse to_float block = Inl (RuntimeError ''Parsed too few samples from Horizons output.''))"
proof -
  have j: "\<exists>t pv. rows_loop (line_juno to_float) (splitlines block) ([], []) = Inr (t, pv)
      \<and> length pv = length t * 6
      \<and> parse_vectors_juno to_float block =
          (if length t < 2 \<or> length pv \<noteq> length t * 6
           then Inl (RuntimeError (''Parsed too few samples. Preview:'' @ CHR 0x0A # preview block))
           else Inr (t, pv))"
    unfolding parse_vectors_juno_def
    by (rule parse_vectors_with_six) (erule sample_six_juno(1), rule sample_six_juno(2))
  have b: "\<exists>t pv. rows_loop (line_bennu to_float) (splitlines block) ([], []) = Inr (t, pv)
      \<and> length pv = length t * 6
      \<and> parse_vectors_bennu to_float block =
          (if length t < 2 \<or> length pv \<noteq> length t * 6
           then Inl (RuntimeError (''Parsed too few samples. Preview:'' @ CHR 0x0A # preview block))
           else Inr (t, pv))"
    unfolding parse_vectors_bennu_def
    by (rule parse_vectors_with_six) (erule sample_six_bennu(1), rule sample_six_bennu(2))
  have v1: "\<forall>t pv. voyager_parse to_float block = Inr (t, pv) \<longrightarrow> 2 \<le> length t \<and> length pv = length t * 6"
    by (auto simp: voyager_parse_def split: sum.splits if_splits dest: voyager_loop_six)
  have v2: "\<forall>t pv. voyager_loop to_float (finditer True ROW_RE (voyager_flat block)) ([], []) = Inr (t, pv)
        \<and> length t < 2 \<longrightarrow>
        voyager_parse to_float block = Inl (RuntimeError ''Parsed too few samples from Horizons output.'')"
    by (auto simp: voyager_parse_def)
  show ?thesis using j b v1 v2 by blast
qed

theorem parse_vectors_error_cases_witness:
  "parse_vectors_juno dec_float block_ok
     = Inr ([24588495 / 10, 24588505 / 10, 24588515 / 10],
            [1, 2, 3, 4, 5, 6, 15 / 10, 2, 3, 4, 5, 6, 2, 2, 3, 4, 5, 6])
   \<and> parse_vectors_juno dec_float block_bad
     = Inl (RuntimeError (''Parsed too few samples. Preview:'' @ CHR 0x0A # preview block_bad))
   \<and> parse_vectors_bennu dec_float block_ok
     = Inl (RuntimeError (''Parsed too few samples. Preview:'' @ CHR 0x0A # preview block_ok))
   \<and> voyager_parse dec_float block_bad
     = Inl (RuntimeError ''Parsed too few samples from Horizons output.'')
   \<and> voyager_parse dec_float block_voyager
     = Inr ([24433925 / 10, 24433935 / 10], [1, 2, 3, 4, 5, 6, 15 / 10, 2, 3, 4, 5, 6])"
  using parse_vectors_error_cases [of dec_float block_ok]
    parse_vectors_error_cases [of dec_float block_bad]
    parse_vectors_error_cases [of dec_float block_voyager]
  unfolding voyager_ok juno_ok_rows juno_bad_rows bennu_ok_rows voyager_bad_rows
  by simp

theorem voyager_error_without_preview_counterexample:
  "voyager_parse dec_float block_bad = Inl (RuntimeError ''Parsed too few samples from Horizons output.'')
   \<and> preview block_bad = block_bad
   \<and> \<not> contains ''Parsed too few samples from Horizons output.'' (preview block_bad)"
  by (simp only: voyager_bad preview_bad not_contains_bad simp_thms)

subsection \<open>The choice of the six vector fields\<close>

lemma row8_strip:
  "strip '' 2443392.5, A.D. 1977-Sep-05 12:00, 1, 2, 3, 4, 5, 6,''
     = ''2443392.5, A.D. 1977-Sep-05 12:00, 1, 2, 3, 4, 5, 6,''"
  by code_simp

lemma row8_parts_juno:
  "csv_parts_juno ''2443392.5, A.D. 1977-Sep-05 12:00, 1, 2, 3, 4, 5, 6,''
     = [''2443392.5'', ''A.D. 1977-Sep-05 12:00'', ''1'', ''2'', ''3'', ''4'', ''5'', ''6'']"
  by code_simp

lemma row8_parts_bennu:
  "map strip (split_on CHR '','' ''2443392.5, A.D. 1977-Sep-05 12:00, 1, 2, 3, 4, 5, 6,'')
     = [''2443392.5'', ''A.D. 1977-Sep-05 12:00'', ''1'', ''2'', ''3'', ''4'', ''5'', ''6'', []]"
  by code_simp

lemma jd_7: "dec_float ''2458849.5'' = Some (24588495 / 10)"
  and jd_8: "dec_float ''2443392.5'' = Some (24433925 / 10)"
  by (simp_all add: dec_float_def is_digit_def)

text \<open>
  Claim C4. On a row that holds a comma, generate\_ephemeris\_juno.py gives a sample exactly
  when the first field (after dropping empty trailing fields) starts with a digit and reads
  as a number, and the six fields from index 2 on (eight fields or more) or from index 1 on
  (fewer) exist and read as numbers: the offset follows the number of columns.
  generate\_ephemeris\_bennu.py gives a sample exactly when the row has eight fields or more,
  the first reads as a number and the fields 2 to 7 do: its offset is fixed, and a row of
  seven fields gives no sample.
\<close>

theorem field_selection:
  assumes "CHR '','' \<in> set (strip raw)"
  shows "(line_juno to_float raw = Sample jd vals \<longleftrightarrow>
           (let parts = csv_parts_juno (strip raw);
                start_idx = (if 8 \<le> length parts then 2 else 1)
            in parts \<noteq> [] \<and> starts_with_digit (hd parts) \<and> to_float (hd parts) = Some jd
               \<and> start_idx + 6 \<le> length parts
               \<and> floats to_float (map d_to_e (take 6 (drop start_idx parts))) = Some vals))
       \<and> (line_bennu to_float raw = Sample jd vals \<longleftrightarrow>
           (let parts = map strip (split_on CHR '','' (strip raw))
            in 8 \<le> length parts \<and> to_float (hd parts) = Some jd
               \<and> floats to_float (map d_to_e (take 6 (drop 2 parts))) = Some vals))"
proof -
  from assms have ne: "strip raw \<noteq> []" by auto
  have "line_juno to_float raw = csv_row_juno to_float (strip raw)"
    using assms ne by (simp add: line_juno_def)
  then have juno: "line_juno to_float raw = Sample jd vals \<longleftrightarrow>
           (let parts = csv_parts_juno (strip raw);
                start_idx = (if 8 \<le> length parts then 2 else 1)
            in parts \<noteq> [] \<and> starts_with_digit (hd parts) \<and> to_float (hd parts) = Some jd
               \<and> start_idx + 6 \<le> length parts
               \<and> floats to_float (map d_to_e (take 6 (drop start_idx parts))) = Some vals)"
    by (auto simp: csv_row_juno_eq Let_def split: option.splits if_splits)
  have bennu: "line_bennu to_float raw = Sample jd vals \<longleftrightarrow>
           (let parts = map strip (split_on CHR '','' (strip raw))
            in 8 \<le> length parts \<and> to_float (hd parts) = Some jd
               \<and> floats to_float (map d_to_e (take 6 (drop 2 parts))) = Some vals)"
    using assms ne by (auto simp: line_bennu_eq Let_def split: option.splits)
  from juno bennu show ?thesis by (rule conjI)
qed

theorem field_selection_witness:
  "line_juno dec_float ''2458849.5,1,2,3,4,5,6'' = Sample (24588495 / 10) [1, 2, 3, 4, 5, 6]
   \<and> line_juno dec_float '' 2443392.5, A.D. 1977-Sep-05 12:00, 1, 2, 3, 4, 5, 6,''
       = Sample (24433925 / 10) [1, 2, 3, 4, 5, 6]
   \<and> line_bennu dec_float '' 2443392.5, A.D. 1977-Sep-05 12:00, 1, 2, 3, 4, 5, 6,''
       = Sample (24433925 / 10) [1, 2, 3, 4, 5, 6]"
  using field_selection [of "''2458849.5,1,2,3,4,5,6''" dec_float "24588495 / 10" "[1, 2, 3, 4, 5, 6]"]
    field_selection [of "'' 2443392.5, A.D. 1977-Sep-05 12:00, 1, 2, 3, 4, 5, 6,''" dec_float
      "24433925 / 10" "[1, 2, 3, 4, 5, 6]"]
  unfolding strip1 row8_strip parts1 row8_parts_juno row8_parts_bennu
  by (simp add: starts_with_digit_def is_digit_def dec_float_def d_to_e_def)

theorem line_bennu_seven_fields_counterexample:
  "length (map strip (split_on CHR '','' (strip ''2458849.5,1,2,3,4,5,6''))) = 7
   \<and> dec_float (hd (map strip (split_on CHR '','' (strip ''2458849.5,1,2,3,4,5,6'')))) = Some (24588495 / 10)
   \<and> line_bennu dec_float ''2458849.5,1,2,3,4,5,6'' = Skip
   \<and> line_juno dec_float ''2458849.5,1,2,3,4,5,6'' = Sample (24588495 / 10) [1, 2, 3, 4, 5, 6]"
  unfolding strip1 bparts1 brow1 row1 by (simp add: jd_7)
section \<open>Properties of the range-error interpreter\<close>

subsection \<open>First results of the matcher\<close>

lemma leads_Eps: "leads ic Eps st st"
  by (simp add: leads_def)

lemma leads_Seq: "leads ic r1 st m1 \<Longrightarrow> leads ic r2 m1 m2 \<Longrightarrow> leads ic (Seq r1 r2) st m2"
  by (auto simp: leads_def)

lemma leads_Seq_skip:
  "rmatch ic r1 st = x1 # x2 # xs \<Longrightarrow> rmatch ic r2 x1 = [] \<Longrightarrow> leads ic r2 x2 m \<Longrightarrow>
   leads ic (Seq r1 r2) st m"
  by (auto simp: leads_def)

lemma leads_Grp:
  "leads ic r (s, g) (s', g') \<Longrightarrow>
   leads ic (Grp i r) (s, g) (s', (i, take (length s - length s') s) # g')"
  by (auto simp: leads_def)

lemma leads_Lit: "lit_ok ic c x \<Longrightarrow> leads ic (Lit c) (x # s, g) (s, g)"
  by (simp add: leads_def one_char_def)

lemma leads_Cls: "cls_ok ic cs x \<Longrightarrow> leads ic (Cls cs) (x # s, g) (s, g)"
  by (simp add: leads_def one_char_def)

lemma leads_Alt1: "leads ic r1 st m \<Longrightarrow> leads ic (Alt r1 r2) st m"
  by (auto simp: leads_def)

lemma leads_Alt2: "rmatch ic r1 st = [] \<Longrightarrow> leads ic r2 st m \<Longrightarrow> leads ic (Alt r1 r2) st m"
  by (auto simp: leads_def)

text \<open>A literal word matches exactly the texts that spell it.\<close>

lemma rmatch_word:
  "rmatch ic (word w) (s, g) =
     (if length w \<le> length s \<and> list_all2 (lit_ok ic) w (take (length w) s)
      then [(drop (length w) s, g)] else [])"
proof (induction w arbitrary: s)
  case Nil
  then show ?case by (simp add: word_def seqs_def)
next
  case (Cons c w)
  have w: "rmatch ic (word (c # w)) = rmatch ic (Seq (Lit c) (word w))"
    by (simp add: word_def seqs_def)
  show ?case
  proof (cases s)
    case Nil
    then show ?thesis by (simp add: w one_char_def)
  next
    case (Cons x xs)
    then show ?thesis using Cons.IH [of xs] by (simp add: w one_char_def)
  qed
qed

text \<open>The greedy repetition of a test on one character: the longest run first.\<close>

lemma upt_Suc_Suc: "[0..<Suc (Suc n)] = 0 # map Suc [0..<Suc n]"
  by (simp only: upt_conv_Cons [of 0 "Suc (Suc n)"] map_Suc_upt zero_less_Suc if_True)

lemma star_one_char:
  "length s \<le> fuel \<Longrightarrow>
   star_iter fuel (one_char ok) (s, g)
     = map (\<lambda>k. (drop k s, g)) (rev [0..<Suc (length (takeWhile ok s))])"
proof (induction fuel arbitrary: s)
  case 0
  then show ?case by simp
next
  case (Suc fuel)
  show ?case
  proof (cases s)
    case Nil
    then show ?thesis by (simp add: one_char_def)
  next
    case (Cons x xs)
    show ?thesis
    proof (cases "ok x")
      case False
      then show ?thesis using Cons by (simp add: one_char_def)
    next
      case True
      from Suc.prems Cons have "length xs \<le> fuel" by simp
      from Suc.IH [OF this] True show ?thesis
        unfolding Cons
        by (simp add: one_char_def upt_Suc_Suc rev_map comp_def del: upt_Suc)
    qed
  qed
qed

lemma rmatch_Plus_Cls:
  "rmatch ic (Plus (Cls cs)) (s, g)
     = map (\<lambda>k. (drop k s, g)) (rev [1..<Suc (length (takeWhile (cls_ok ic cs) s))])"
proof (cases s)
  case Nil
  then show ?thesis by (simp add: one_char_def)
next
  case (Cons x xs)
  show ?thesis
  proof (cases "cls_ok ic cs x")
    case False
    then show ?thesis using Cons by (simp add: one_char_def)
  next
    case True
    have "[1..<Suc (Suc n)] = map Suc [0..<Suc n]" for n
      by (simp only: map_Suc_upt One_nat_def)
    then show ?thesis using True Cons star_one_char [of xs "length xs" "cls_ok ic cs" g]
      by (simp add: one_char_def rev_map comp_def del: upt_Suc)
  qed
qed

lemma Plus_Cls_none:
  "s = [] \<or> \<not> cls_ok ic cs (hd s) \<Longrightarrow> rmatch ic (Plus (Cls cs)) (s, g) = []"
  unfolding rmatch_Plus_Cls by (cases s) auto

lemma Plus_Cls_one:
  "cls_ok ic cs x \<Longrightarrow> s = [] \<or> \<not> cls_ok ic cs (hd s) \<Longrightarrow>
   rmatch ic (Plus (Cls cs)) (x # s, g) = [(s, g)]"
  unfolding rmatch_Plus_Cls by (cases s) auto

lemma Plus_Cls_run:
  assumes "list_all (cls_ok ic cs) u" and "cls_ok ic cs x" and "cls_ok ic cs y"
    and "v = [] \<or> \<not> cls_ok ic cs (hd v)"
  shows "\<exists>ms. rmatch ic (Plus (Cls cs)) (u @ x # y # v, g) = (v, g) # (y # v, g) # ms"
proof -
  have tw: "takeWhile (cls_ok ic cs) (u @ x # y # v) = u @ [x, y]"
    using assms by (cases v) (auto simp: takeWhile_append2 list_all_iff)
  have "rev [1..<Suc (length u + 2)] = (length u + 2) # (length u + 1) # rev [1..<Suc (length u)]"
    by simp
  then show ?thesis unfolding rmatch_Plus_Cls tw by simp
qed

subsection \<open>Digits and the fields of a date\<close>

lemma digit_chars: "map digit_char [0..<10] = ''0123456789''"
  by code_simp

lemma digit_char_nth: "digit_char n = ''0123456789'' ! (n mod 10)"
proof -
  have "digit_char (n mod 10) = map digit_char [0..<10] ! (n mod 10)"
    by simp
  then show ?thesis unfolding digit_chars by (simp add: digit_char_def)
qed

lemma is_digit_digit_char: "is_digit (digit_char n)"
proof -
  have "n mod 10 < length ''0123456789''" by simp
  then have "''0123456789'' ! (n mod 10) \<in> set ''0123456789''" by (rule nth_mem)
  then show ?thesis unfolding digit_char_nth is_digit_def .
qed

lemma digit_char_value: "of_char (digit_char n) - 48 = n mod 10"
  by (simp add: digit_char_def)

lemma upt_tens:
  "[0..<10] = [0, 1, 2, 3, 4, 5, 6, 7, 8, 9]"
  "[1..<10] = [1, 2, 3, 4, 5, 6, 7, 8, 9]"
  "[10..<20] = [10, 11, 12, 13, 14, 15, 16, 17, 18, 19]"
  "[20..<30] = [20, 21, 22, 23, 24, 25, 26, 27, 28, 29]"
  "[30..<40] = [30, 31, 32, 33, 34, 35, 36, 37, 38, 39]"
  "[40..<50] = [40, 41, 42, 43, 44, 45, 46, 47, 48, 49]"
  "[50..<60] = [50, 51, 52, 53, 54, 55, 56, 57, 58, 59]"
  "[20..<24] = [20, 21, 22, 23]"
  "[30..<32] = [30, 31]"
  by code_simp+

lemma upt24: "[0..<24] = [0..<10] @ [10..<20] @ [20..<24]"
  and upt60: "[0..<60] = [0..<10] @ [10..<20] @ [20..<30] @ [30..<40] @ [40..<50] @ [50..<60]"
  and upt1_32: "[1..<32] = [1..<10] @ [10..<20] @ [20..<30] @ [30..<32]"
  and upt12: "[0..<12] = [0..<10] @ [10, 11]"
  by code_simp+

lemma cls_digit: "cls_ok ic ''0123456789'' (digit_char n)"
  using is_digit_digit_char [of n] by (simp add: cls_ok_def is_digit_def)

lemma leads_RE_Y: "leads True RE_Y (four_digits y @ rest, g) (rest, g)"
  unfolding RE_Y_def seqs_def four_digits_def rx_digit_def
  by (auto intro!: leads_Seq leads_Cls leads_Eps cls_digit)

lemma lower_digits:
  "lower CHR ''0'' = CHR ''0''" "lower CHR ''1'' = CHR ''1''" "lower CHR ''2'' = CHR ''2''"
  "lower CHR ''3'' = CHR ''3''" "lower CHR ''4'' = CHR ''4''" "lower CHR ''5'' = CHR ''5''"
  "lower CHR ''6'' = CHR ''6''" "lower CHR ''7'' = CHR ''7''" "lower CHR ''8'' = CHR ''8''"
  "lower CHR ''9'' = CHR ''9''" "lower CHR '' '' = CHR '' ''" "lower CHR '':'' = CHR '':''"
  "lower CHR ''-'' = CHR ''-''" "lower CHR ''('' = CHR ''(''" "lower CHR '')'' = CHR '')''"
  by code_simp+

lemma leads_RE_d:
  assumes "1 \<le> d" "d \<le> 31"
  shows "leads True RE_d (two_digits d @ rest, g) (rest, g)"
proof -
  have "\<forall>d\<in>set [1..<32]. leads True RE_d (two_digits d @ rest, g) (rest, g)"
    unfolding upt1_32 upt_tens
    by (simp add: two_digits_def digit_char_nth leads_def RE_d_def alts_def seqs_def one_char_def
        lit_ok_def cls_ok_def rx_digit_def lower_digits)
  then show ?thesis using assms by simp
qed

lemma leads_RE_H:
  assumes "h < 24"
  shows "leads True RE_H (two_digits h @ rest, g) (rest, g)"
proof -
  have "\<forall>h\<in>set [0..<24]. leads True RE_H (two_digits h @ rest, g) (rest, g)"
    unfolding upt24 upt_tens
    by (simp add: two_digits_def digit_char_nth leads_def RE_H_def alts_def seqs_def one_char_def
        lit_ok_def cls_ok_def rx_digit_def lower_digits)
  then show ?thesis using assms by simp
qed

lemma leads_RE_M:
  assumes "mi < 60"
  shows "leads True RE_M (two_digits mi @ rest, g) (rest, g)"
proof -
  have "\<forall>mi\<in>set [0..<60]. leads True RE_M (two_digits mi @ rest, g) (rest, g)"
    unfolding upt60 upt_tens
    by (simp add: two_digits_def digit_char_nth leads_def RE_M_def alts_def seqs_def one_char_def
        lit_ok_def cls_ok_def rx_digit_def lower_digits)
  then show ?thesis using assms by simp
qed

lemma Mon_length: "\<forall>i\<in>set [0..<12]. length (Mon ! i) = 3"
  unfolding upt12 upt_tens by (simp add: Mon_def)

lemma leads_RE_b:
  assumes "i < 12"
  shows "leads True RE_b (Mon ! i @ rest, g) (rest, g)"
proof -
  have "\<forall>i\<in>set [0..<12]. leads True RE_b (Mon ! i @ rest, g) (rest, g)"
    unfolding upt12 upt_tens
    by (simp add: leads_def RE_b_def alts_def month_abbr_def Mon_def rmatch_word
        lit_ok_def lower_def upper_def ascii_upper_def ascii_lower_def)
  then show ?thesis using assms by simp
qed

lemma index_of_Mon:
  assumes "i < 12"
  shows "index_of (map lower (Mon ! i)) month_abbr = Some i"
proof -
  have "\<forall>i\<in>set [0..<12]. index_of (map lower (Mon ! i)) month_abbr = Some i"
    by code_simp
  then show ?thesis using assms by simp
qed

lemma is_digit_neq:
  assumes "is_digit c"
  shows "c \<noteq> CHR ''_''" "c \<noteq> CHR ''-''" "c \<noteq> CHR ''+''" "\<not> is_space c"
  using assms by (auto simp: is_digit_def is_space_def py_spaces_def)

lemma strip_id: "s \<noteq> [] \<Longrightarrow> \<not> is_space (hd s) \<Longrightarrow> \<not> is_space (last s) \<Longrightarrow> strip s = s"
proof -
  assume a: "s \<noteq> []" "\<not> is_space (hd s)" "\<not> is_space (last s)"
  then have 1: "dropWhile is_space s = s" by (cases s) auto
  from a have "dropWhile is_space (rev s) = rev s" by (cases "rev s") (auto simp: last_rev hd_rev)
  with 1 show ?thesis by (simp add: strip_def)
qed

lemma py_int_two: "n < 100 \<Longrightarrow> py_int (two_digits n) = Some (int n)"
proof -
  assume n: "n < 100"
  have s: "strip (two_digits n) = two_digits n"
    by (rule strip_id) (simp_all add: two_digits_def is_digit_neq is_digit_digit_char)
  have v: "digits_value (two_digits n) 0 = n"
    using n by (simp add: two_digits_def digit_char_value)
  show ?thesis
    unfolding py_int_def s Let_def
    using v by (simp add: two_digits_def is_digit_neq is_digit_digit_char)
qed

lemma four_digits_sum:
  "y = q1 * 10 + r0 \<Longrightarrow> q1 = q2 * 10 + r1 \<Longrightarrow> q2 = q3 * 10 + r2 \<Longrightarrow>
   q3 * 1000 + r2 * 100 + r1 * 10 + r0 = (y::nat)"
  by simp

lemma four_digits_value:
  assumes "(y::nat) < 10000"
  shows "y div 1000 * 1000 + y div 100 mod 10 * 100 + y div 10 mod 10 * 10 + y mod 10 = y"
    and "y div 1000 mod 10 = y div 1000"
proof -
  have a: "y = y div 10 * 10 + y mod 10" by simp
  have e1: "y div 10 div 10 = y div 100" and e2: "y div 100 div 10 = y div 1000"
    using div_mult2_eq [of y 10 10, symmetric] div_mult2_eq [of y 100 10, symmetric] by simp_all
  have "y div 10 = y div 10 div 10 * 10 + y div 10 mod 10" by simp
  then have b: "y div 10 = y div 100 * 10 + y div 10 mod 10" unfolding e1 .
  have "y div 100 = y div 100 div 10 * 10 + y div 100 mod 10" by simp
  then have c: "y div 100 = y div 1000 * 10 + y div 100 mod 10" unfolding e2 .
  from assms have "y div 1000 < 10" by (simp add: div_less_iff_less_mult)
  then show "y div 1000 mod 10 = y div 1000" by simp
  show "y div 1000 * 1000 + y div 100 mod 10 * 100 + y div 10 mod 10 * 10 + y mod 10 = y"
    by (rule four_digits_sum [OF a b c])
qed

lemma py_int_four: "y < 10000 \<Longrightarrow> py_int (four_digits y) = Some (int y)"
proof -
  assume y: "y < 10000"
  have s: "strip (four_digits y) = four_digits y"
    by (rule strip_id) (simp_all add: four_digits_def is_digit_neq is_digit_digit_char)
  have v: "digits_value (four_digits y) 0 = y"
    using four_digits_value [OF y]
    by (simp add: four_digits_def digit_char_value algebra_simps)
  show ?thesis
    unfolding py_int_def s Let_def
    using v by (simp add: four_digits_def is_digit_neq is_digit_digit_char)
qed

lemma leads_seqs_Nil: "leads ic (seqs []) st st"
  by (simp add: seqs_def leads_def)

lemma leads_seqs_Cons:
  "leads ic r st m1 \<Longrightarrow> leads ic (seqs rs) m1 m2 \<Longrightarrow> leads ic (seqs (r # rs)) st m2"
  unfolding seqs_def by (simp only: foldr.simps comp_def) (rule leads_Seq)

lemma leads_Grp_app:
  "leads ic r (f @ s', g) (s', g') \<Longrightarrow> leads ic (Grp i r) (f @ s', g) (s', (i, f) # g')"
  using leads_Grp [of ic r "f @ s'" g s' g' i] by simp

lemma leads_space_digit:
  "leads True (Plus rx_space) (CHR '' '' # digit_char n # rest, g) (digit_char n # rest, g)"
proof -
  have "\<forall>k\<in>set [0..<10]. \<not> cls_ok True py_spaces (digit_char k)"
    by code_simp
  then have "\<not> cls_ok True py_spaces (digit_char (n mod 10))" by simp
  then have no: "\<not> cls_ok True py_spaces (digit_char n)" by (simp add: digit_char_def)
  have sp: "cls_ok True py_spaces CHR '' ''" by code_simp
  show ?thesis
    unfolding leads_def rx_space_def
    using Plus_Cls_one [of True py_spaces "CHR '' ''" "digit_char n # rest" g] sp no by simp
qed

lemma stamp_cons:
  "stamp dt = four_digits (year dt) @ CHR ''-'' # Mon ! (month dt - 1) @ CHR ''-'' # two_digits (day dt)
       @ CHR '' '' # digit_char (hour dt div 10) # digit_char (hour dt) # CHR '':'' # two_digits (minute dt) @ []"
  by (simp add: stamp_def two_digits_def)

lemma leads_STRPTIME:
  assumes "valid_datetime dt"
  shows "leads True STRPTIME_RE (stamp dt, [])
           ([], [(5, two_digits (minute dt)), (4, two_digits (hour dt)), (3, two_digits (day dt)),
                 (2, Mon ! (month dt - 1)), (1, four_digits (year dt))])"
proof -
  from assms have m: "month dt - 1 < 12" and d: "1 \<le> day dt" "day dt \<le> 31"
    and h: "hour dt < 24" and mi: "minute dt < 60"
    by (auto simp: valid_datetime_def days_in_month_def split: if_splits)
  have H: "leads True (Grp 4 RE_H) (two_digits (hour dt) @ CHR '':'' # two_digits (minute dt) @ [], g)
             (CHR '':'' # two_digits (minute dt) @ [], (4, two_digits (hour dt)) # g)" for g
    by (rule leads_Grp_app) (rule leads_RE_H [OF h])
  show ?thesis
    unfolding STRPTIME_RE_def stamp_cons
    apply (rule leads_seqs_Cons, rule leads_Grp_app, rule leads_RE_Y)
    apply (rule leads_seqs_Cons, rule leads_Lit, simp add: lit_ok_def)
    apply (rule leads_seqs_Cons, rule leads_Grp_app, rule leads_RE_b [OF m])
    apply (rule leads_seqs_Cons, rule leads_Lit, simp add: lit_ok_def)
    apply (rule leads_seqs_Cons, rule leads_Grp_app, rule leads_RE_d [OF d])
    apply (rule leads_seqs_Cons, rule leads_space_digit)
    apply (rule leads_seqs_Cons)
     apply (rule H [unfolded two_digits_def [of "hour dt"] append_Cons append_Nil])
    apply (rule leads_seqs_Cons, rule leads_Lit, simp add: lit_ok_def)
    apply (rule leads_seqs_Cons, rule leads_Grp_app, rule leads_RE_M [OF mi])
    apply (simp add: two_digits_def leads_seqs_Nil)
    done
qed

lemma strip_stamp: "strip (stamp dt) = stamp dt"
  by (rule strip_id)
    (simp_all add: stamp_def four_digits_def two_digits_def is_digit_neq is_digit_digit_char)

lemma strptime_stamp:
  assumes "valid_datetime dt" "second dt = 0"
  shows "strptime (stamp dt) = Some dt"
proof -
  from leads_STRPTIME [OF assms(1)] obtain ms where
    r: "rmatch True STRPTIME_RE (stamp dt, []) =
        ([], [(5, two_digits (minute dt)), (4, two_digits (hour dt)), (3, two_digits (day dt)),
              (2, Mon ! (month dt - 1)), (1, four_digits (year dt))]) # ms"
    unfolding leads_def by blast
  from assms have b: "month dt - 1 < 12" "Suc (month dt - Suc 0) = month dt" "year dt < 10000"
    "day dt < 100" "hour dt < 100" "minute dt < 100"
    by (auto simp: valid_datetime_def days_in_month_def split: if_splits)
  have dt: "\<lparr>year = year dt, month = month dt, day = day dt, hour = hour dt, minute = minute dt,
             second = 0\<rparr> = dt"
    using assms(2) by (cases dt) simp
  show ?thesis
    unfolding strptime_def r
    using assms(1) index_of_Mon [OF b(1)]
    by (simp add: group_def py_int_four py_int_two b dt)
qed

subsection \<open>The search for the phrase\<close>

lemma lit_ok_starts:
  "length w \<le> length s \<and> list_all2 (lit_ok True) w (take (length w) s) \<Longrightarrow>
   starts_with (map lower s) (map lower w)"
proof (induction w arbitrary: s)
  case Nil
  then show ?case by (cases s) simp_all
next
  case (Cons c w)
  then show ?case by (cases s) (auto simp: lit_ok_def)
qed

lemma word_fails:
  "\<not> starts_with (map lower s) (map lower w) \<Longrightarrow> rmatch True (word w) (s, g) = []"
  using lit_ok_starts [of w s] by (auto simp: rmatch_word)

lemma earliest_lower: "map lower ''earliest'' = ''earliest''"
  by code_simp

lemma EARLIEST_fails:
  assumes "\<not> starts_with (map lower s) ''earliest''"
  shows "rmatch True EARLIEST_RE_bennu (s, g) = []"
proof -
  have "rmatch True (word ''earliest'') (s, g) = []"
    using assms word_fails [of s "''earliest''" g] unfolding earliest_lower by blast
  then show ?thesis by (simp add: EARLIEST_RE_bennu_def seqs_def)
qed

lemma re_search_None:
  "\<not> contains (map lower msg) ''earliest'' \<Longrightarrow> re_search True EARLIEST_RE_bennu msg = None"
proof (induction msg)
  case Nil
  have "rmatch True EARLIEST_RE_bennu ([], []) = []" by (rule EARLIEST_fails) simp
  then show ?case by simp
next
  case (Cons c msg)
  from Cons.prems have 1: "\<not> starts_with (map lower (c # msg)) ''earliest''"
    and 2: "\<not> contains (map lower msg) ''earliest''" by simp_all
  from EARLIEST_fails [OF 1] Cons.IH [OF 2] show ?case by simp
qed

lemma starts_with_append:
  "length w \<le> length a \<Longrightarrow> starts_with (a @ b) w = starts_with a w"
  by (induction a w rule: starts_with.induct) simp_all

lemma re_search_skip:
  "\<not> contains (map lower (pre @ ''earlies'')) ''earliest'' \<Longrightarrow>
   re_search True EARLIEST_RE_bennu (pre @ ''earliest'' @ t)
     = re_search True EARLIEST_RE_bennu (''earliest'' @ t)"
proof (induction pre)
  case Nil
  then show ?case by simp
next
  case (Cons c pre)
  from Cons.prems have 1: "\<not> starts_with (map lower (c # pre @ ''earlies'')) ''earliest''"
    and 2: "\<not> contains (map lower (pre @ ''earlies'')) ''earliest''" by simp_all
  have "c # pre @ ''earliest'' @ t = (c # pre @ ''earlies'') @ ''t'' @ t" by simp
  then have "map lower (c # pre @ ''earliest'' @ t)
      = map lower (c # pre @ ''earlies'') @ map lower (''t'' @ t)"
    by (simp only: map_append)
  moreover have "length ''earliest'' \<le> length (map lower (c # pre @ ''earlies''))" by simp
  ultimately have "\<not> starts_with (map lower (c # pre @ ''earliest'' @ t)) ''earliest''"
    using 1 by (simp only: starts_with_append simp_thms)
  from EARLIEST_fails [OF this] have "rmatch True EARLIEST_RE_bennu (c # pre @ ''earliest'' @ t, []) = []" .
  then have "re_search True EARLIEST_RE_bennu ((c # pre) @ ''earliest'' @ t)
      = re_search True EARLIEST_RE_bennu (pre @ ''earliest'' @ t)" by simp
  with Cons.IH [OF 2] show ?case by simp
qed

lemma re_search_leads: "leads ic r (s, []) m \<Longrightarrow> re_search ic r s = Some m"
  by (cases s) (auto simp: leads_def)

lemma leads_word_same: "leads ic (word w) (w @ s, g) (s, g)"
proof -
  have "list_all2 (lit_ok ic) w w" by (rule list_all2_refl) (simp add: lit_ok_def)
  then show ?thesis by (simp add: leads_def rmatch_word)
qed

lemma leads_space_word:
  assumes "w \<noteq> []" "\<not> cls_ok True py_spaces (hd w)"
  shows "leads True (Plus rx_space) (CHR '' '' # w @ s, g) (w @ s, g)"
proof -
  have sp: "cls_ok True py_spaces CHR '' ''" by code_simp
  from assms have "w @ s = [] \<or> \<not> cls_ok True py_spaces (hd (w @ s))" by simp
  from Plus_Cls_one [OF sp this] show ?thesis by (simp add: leads_def rx_space_def)
qed

lemma not_space_digit_char: "\<not> cls_ok True py_spaces (digit_char n)"
proof -
  have "\<forall>k\<in>set [0..<10]. \<not> cls_ok True py_spaces (digit_char k)"
    by code_simp
  then have "\<not> cls_ok True py_spaces (digit_char (n mod 10))" by simp
  then show ?thesis by (simp add: digit_char_def)
qed

lemma stamp_hd: "stamp dt \<noteq> []" "hd (stamp dt) = digit_char (year dt div 1000)"
  by (simp_all add: stamp_def four_digits_def)

lemma Plus_Cls_run2:
  assumes "list_all (cls_ok ic cs) w" and "w \<noteq> []" and "cls_ok ic cs y"
    and "v = [] \<or> \<not> cls_ok ic cs (hd v)"
  shows "\<exists>ms. rmatch ic (Plus (Cls cs)) (w @ y # v, g) = (v, g) # (y # v, g) # ms"
proof -
  from assms(2) have w: "w = butlast w @ [last w]" by simp
  from assms(1) have "list_all (cls_ok ic cs) (butlast w)" "cls_ok ic cs (last w)"
    using assms(2) by (auto simp: list_all_iff dest: in_set_butlastD)
  from Plus_Cls_run [OF this assms(3,4), of g]
  have "\<exists>ms. rmatch ic (Plus (Cls cs)) ((butlast w @ [last w]) @ y # v, g) = (v, g) # (y # v, g) # ms"
    by simp
  then show ?thesis using w by simp
qed

lemma date_chars_digit: "cls_ok True date_chars (digit_char n)"
proof -
  have "digit_char n \<in> set ''0123456789''"
    using is_digit_digit_char [of n] by (simp only: is_digit_def)
  then have "digit_char n \<in> set date_chars"
    by (simp only: date_chars_def word_chars_def set_append Un_iff simp_thms)
  then show ?thesis by (simp only: cls_ok_def simp_thms)
qed

lemma date_chars_Mon: "i < 12 \<Longrightarrow> list_all (cls_ok True date_chars) (Mon ! i)"
proof -
  have "\<forall>i\<in>set [0..<12]. list_all (cls_ok True date_chars) (Mon ! i)" by code_simp
  then show "i < 12 \<Longrightarrow> list_all (cls_ok True date_chars) (Mon ! i)" by simp
qed

lemma date_chars_seps:
  "cls_ok True date_chars CHR ''-''" "cls_ok True date_chars CHR '':''"
  "cls_ok True date_chars CHR '' ''" "\<not> cls_ok True date_chars CHR ''(''"
  "\<not> cls_ok True py_spaces CHR ''(''" "\<not> cls_ok True py_spaces CHR ''a''"
  "\<not> cls_ok True py_spaces CHR ''d''" "\<not> cls_ok True py_spaces CHR ''i''"
  by code_simp+

lemma date_chars_stamp:
  assumes "valid_datetime dt"
  shows "list_all (cls_ok True date_chars) (stamp dt)"
proof -
  from assms have "month dt - 1 < 12" by (auto simp: valid_datetime_def)
  from date_chars_Mon [OF this] show ?thesis
    by (simp add: stamp_def four_digits_def two_digits_def date_chars_digit date_chars_seps)
qed

lemma phrase_cons:
  "''earliest available date is '' @ stamp dt @ '' (UT)'' @ post
     = ''earliest'' @ CHR '' '' # ''available'' @ CHR '' '' # ''date'' @ CHR '' '' # ''is''
         @ CHR '' '' # stamp dt @ CHR '' '' # ''(UT)'' @ post"
  by simp

lemma leads_tail:
  "leads True (seqs [Plus rx_space, word ''(UT)'']) (CHR '' '' # ''(UT)'' @ post, g) (post, g)"
  apply (rule leads_seqs_Cons, rule leads_space_word, simp, simp add: date_chars_seps)
  apply (rule leads_seqs_Cons, rule leads_word_same)
  apply (rule leads_seqs_Nil)
  done

lemma tail_fails: "rmatch True (seqs [Plus rx_space, word ''(UT)'']) (''(UT)'' @ post, g) = []"
proof -
  have "rmatch True (Plus (Cls py_spaces)) (''(UT)'' @ post, g) = []"
    by (rule Plus_Cls_none) (simp add: date_chars_seps)
  then show ?thesis by (simp add: seqs_def rx_space_def)
qed

lemma rmatch_Grp:
  "rmatch ic (Grp i r) st
     = map (\<lambda>st'. (fst st', (i, take (length (fst st) - length (fst st')) (fst st)) # snd st'))
         (rmatch ic r st)"
  by simp

lemma leads_group:
  assumes "valid_datetime dt"
  shows "leads True (seqs [Grp 1 (Plus (Cls date_chars)), Plus rx_space, word ''(UT)''])
           (stamp dt @ CHR '' '' # ''(UT)'' @ post, g) (post, (1, stamp dt) # g)"
proof -
  let ?v = "''(UT)'' @ post"
  let ?s = "stamp dt @ CHR '' '' # ?v"
  have "?v = [] \<or> \<not> cls_ok True date_chars (hd ?v)" by (simp add: date_chars_seps)
  from Plus_Cls_run2 [OF date_chars_stamp [OF assms] stamp_hd(1) date_chars_seps(3) this, of g]
  obtain ms where p: "rmatch True (Plus (Cls date_chars)) (?s, g) = (?v, g) # (CHR '' '' # ?v, g) # ms"
    by blast
  have g: "rmatch True (Grp 1 (Plus (Cls date_chars))) (?s, g)
      = (?v, (1, stamp dt @ '' '') # g) # (CHR '' '' # ?v, (1, stamp dt) # g)
        # map (\<lambda>st'. (fst st', (1, take (length ?s - length (fst st')) ?s) # snd st')) ms"
    unfolding rmatch_Grp p by simp
  have "leads True (Seq (Grp 1 (Plus (Cls date_chars))) (seqs [Plus rx_space, word ''(UT)'']))
          (?s, g) (post, (1, stamp dt) # g)"
    by (rule leads_Seq_skip [OF g tail_fails leads_tail])
  then show ?thesis by (simp add: seqs_def)
qed

lemma leads_EARLIEST:
  assumes "valid_datetime dt"
  shows "leads True EARLIEST_RE_bennu
           (''earliest available date is '' @ stamp dt @ '' (UT)'' @ post, []) (post, [(1, stamp dt)])"
  unfolding phrase_cons EARLIEST_RE_bennu_def
  apply (rule leads_seqs_Cons, rule leads_word_same)
  apply (rule leads_seqs_Cons, rule leads_space_word, simp, simp add: date_chars_seps)
  apply (rule leads_seqs_Cons, rule leads_word_same)
  apply (rule leads_seqs_Cons, rule leads_space_word, simp, simp add: date_chars_seps)
  apply (rule leads_seqs_Cons, rule leads_word_same)
  apply (rule leads_seqs_Cons, rule leads_space_word, simp, simp add: date_chars_seps)
  apply (rule leads_seqs_Cons, rule leads_word_same)
  apply (rule leads_seqs_Cons, rule leads_space_word, rule stamp_hd(1))
   apply (simp only: stamp_hd(2) not_space_digit_char not_False_eq_True)
  apply (rule leads_group [OF assms])
  done

lemma strptime_sound: "strptime s = Some dt \<Longrightarrow> valid_datetime dt \<and> second dt = 0"
  by (auto simp: strptime_def Let_def split: list.splits option.splits if_splits prod.splits)

lemma bennu_phrase:
  assumes "valid_datetime dt" "second dt = 0"
    and "\<not> contains (map lower (pre @ ''earlies'')) ''earliest''"
  shows "parse_earliest_from_error_bennu (earliest_message pre dt post) = Some dt"
proof -
  have "earliest_message pre dt post = pre @ ''earliest'' @ '' available date is '' @ stamp dt @ '' (UT)'' @ post"
    by (simp add: earliest_message_def)
  then have "re_search True EARLIEST_RE_bennu (earliest_message pre dt post)
      = re_search True EARLIEST_RE_bennu (''earliest'' @ '' available date is '' @ stamp dt @ '' (UT)'' @ post)"
    using re_search_skip [OF assms(3)] by simp
  also have "''earliest'' @ '' available date is '' @ stamp dt @ '' (UT)'' @ post
      = ''earliest available date is '' @ stamp dt @ '' (UT)'' @ post" by simp
  also have "re_search True EARLIEST_RE_bennu (''earliest available date is '' @ stamp dt @ '' (UT)'' @ post)
      = Some (post, [(1, stamp dt)])"
    by (rule re_search_leads) (rule leads_EARLIEST [OF assms(1)])
  finally show ?thesis
    by (simp add: parse_earliest_from_error_bennu_def group_def strip_stamp strptime_stamp [OF assms(1,2)])
qed

lemma bennu_no_phrase:
  "\<not> contains (map lower msg) ''earliest'' \<Longrightarrow> parse_earliest_from_error_bennu msg = None"
  by (simp add: parse_earliest_from_error_bennu_def re_search_None)

lemma bennu_whole_minute:
  "parse_earliest_from_error_bennu msg = Some dt \<Longrightarrow> valid_datetime dt \<and> second dt = 0"
  by (auto simp: parse_earliest_from_error_bennu_def split: option.splits dest: strptime_sound)

lemma msg_earliest_eq:
  "earliest_message ''No ephemeris: '' \<lparr>year = 1950, month = 1, day = 1, hour = 0, minute = 0, second = 0\<rparr> []
     = msg_earliest"
  by code_simp

lemma msg_earliest_pre: "\<not> contains (map lower (''No ephemeris: '' @ ''earlies'')) ''earliest''"
  by code_simp

lemma msg_prior_no_phrase: "\<not> contains (map lower msg_prior) ''earliest''"
  by code_simp

lemma valid_1950:
  "valid_datetime \<lparr>year = 1950, month = 1, day = 1, hour = 0, minute = 0, second = 0\<rparr>"
  by (simp add: valid_datetime_def days_in_month_def)

text \<open>
  Claim C5. generate\_ephemeris\_bennu.py: from a message that spells the phrase
  \<open>earliest available date is 1950-Jan-01 00:00 (UT)\<close> for a date \<open>dt\<close> of the calendar
  to the minute, after a text in which no \<open>earliest\<close> starts and before any text,
  \<open>parse_earliest_from_error\<close> returns \<open>dt\<close> itself, with no second added; from a
  message in which the word \<open>earliest\<close> does not occur (in any case) it returns
  \<open>None\<close>; and every boundary it returns is a date of the calendar with 0 seconds.
\<close>

theorem parse_earliest_bennu:
  "(valid_datetime dt \<and> second dt = 0 \<and> \<not> contains (map lower (pre @ ''earlies'')) ''earliest''
      \<longrightarrow> parse_earliest_from_error_bennu (earliest_message pre dt post) = Some dt)
   \<and> (\<not> contains (map lower msg) ''earliest'' \<longrightarrow> parse_earliest_from_error_bennu msg = None)
   \<and> (parse_earliest_from_error_bennu msg = Some dt' \<longrightarrow> valid_datetime dt' \<and> second dt' = 0)"
  using bennu_phrase [of dt pre post] bennu_no_phrase [of msg] bennu_whole_minute [of msg dt']
  by blast

theorem parse_earliest_bennu_witness:
  "parse_earliest_from_error_bennu msg_earliest
     = Some \<lparr>year = 1950, month = 1, day = 1, hour = 0, minute = 0, second = 0\<rparr>
   \<and> parse_earliest_from_error_bennu msg_prior = None"
  using parse_earliest_bennu [of "\<lparr>year = 1950, month = 1, day = 1, hour = 0, minute = 0, second = 0\<rparr>"
      "''No ephemeris: ''" "[]" msg_prior]
  unfolding msg_earliest_eq
  using msg_earliest_pre msg_prior_no_phrase valid_1950 by simp

theorem bennu_no_extra_second_counterexample:
  "parse_earliest_from_error_bennu ''earliest available date is 1950-Jan-01 00:00 (UT)''
     = Some \<lparr>year = 1950, month = 1, day = 1, hour = 0, minute = 0, second = 0\<rparr>
   \<and> parse_earliest_from_error_bennu ''earliest available date is 1950-Jan-01 00:00 (UT)''
     \<noteq> Some \<lparr>year = 1950, month = 1, day = 1, hour = 0, minute = 0, second = 1\<rparr>"
proof -
  have m: "earliest_message [] \<lparr>year = 1950, month = 1, day = 1, hour = 0, minute = 0, second = 0\<rparr> []
      = ''earliest available date is 1950-Jan-01 00:00 (UT)''"
    by code_simp
  have "\<not> contains (map lower ([] @ ''earlies'')) ''earliest''" by code_simp
  from bennu_phrase [OF valid_1950 _ this, of "[]"] show ?thesis unfolding m by simp
qed

text \<open>
  X2. generate\_ephemeris\_juno.py: the expression with doubled backslashes does not match
  the message Horizons sends, so \<open>parse_earliest_from_error\<close> returns \<open>None\<close> for it; on
  a text that spells the backslashes it matches, and \<open>int\<close> raises \<open>ValueError\<close>.
\<close>

theorem juno_doubled_backslashes:
  "parse_earliest_from_error_juno msg_prior = Inr None
   \<and> parse_earliest_from_error_juno msg_earliest = Inr None
   \<and> parse_earliest_from_error_juno
       (''prior to A'' @ [backslash] @ ''.D'' @ [backslash] @ ''. '' @ [backslash] @ ''dddd-JAN-''
         @ [backslash] @ ''dd '' @ [backslash] @ ''dd:'' @ [backslash] @ ''dd:'' @ [backslash] @ ''dd UT'')
     = Inl (ValueError (''invalid literal for int() with base 10: '' @ [backslash] @ ''dddd''))"
  by code_simp
section \<open>Properties of one request\<close>

text \<open>A match leaves alone the groups that the expression does not contain.\<close>

lemma one_char_keeps: "m \<in> set (one_char ok st) \<Longrightarrow> snd m = snd st"
  by (auto simp: one_char_def split: list.splits if_splits)

lemma iter_n_keeps:
  assumes "\<And>st m. m \<in> set (f st) \<Longrightarrow> map_of (snd m) i = map_of (snd st) i"
  shows "m \<in> set (iter_n n f st) \<Longrightarrow> map_of (snd m) i = map_of (snd st) i"
proof (induction n arbitrary: st)
  case 0
  then show ?case by simp
next
  case (Suc n)
  then obtain st1 where "st1 \<in> set (f st)" "m \<in> set (iter_n n f st1)" by auto
  with Suc.IH assms show ?case by metis
qed

lemma star_iter_keeps:
  assumes "\<And>st m. m \<in> set (f st) \<Longrightarrow> map_of (snd m) i = map_of (snd st) i"
  shows "m \<in> set (star_iter fuel f st) \<Longrightarrow> map_of (snd m) i = map_of (snd st) i"
proof (induction fuel arbitrary: st)
  case 0
  then show ?case by simp
next
  case (Suc fuel)
  from Suc.prems consider "m = st"
    | st1 where "st1 \<in> set (f st)" "m \<in> set (star_iter fuel f st1)" by auto
  then show ?case
  proof cases
    case 1
    then show ?thesis by simp
  next
    case 2
    with Suc.IH assms show ?thesis by metis
  qed
qed

lemma rmatch_keeps:
  "i \<notin> grps r \<Longrightarrow> m \<in> set (rmatch ic r st) \<Longrightarrow> map_of (snd m) i = map_of (snd st) i"
proof (induction r arbitrary: st m)
  case (Seq r1 r2)
  from Seq.prems obtain st1 where "st1 \<in> set (rmatch ic r1 st)" "m \<in> set (rmatch ic r2 st1)"
    by auto
  with Seq.IH Seq.prems(1) show ?case by (metis UnCI grps.simps(6))
next
  case (Alt r1 r2)
  from Alt.prems have "i \<notin> grps r1" "i \<notin> grps r2"
    and "m \<in> set (rmatch ic r1 st) \<or> m \<in> set (rmatch ic r2 st)" by simp_all
  with Alt.IH show ?case by blast
next
  case (Opt r)
  from Opt.prems have "i \<notin> grps r" and "m \<in> set (rmatch ic r st) \<or> m = st" by auto
  with Opt.IH show ?case by blast
next
  case (Star r)
  have "\<And>st m. m \<in> set (rmatch ic r st) \<Longrightarrow> map_of (snd m) i = map_of (snd st) i"
    using Star.IH Star.prems(1) by simp
  from star_iter_keeps [of "rmatch ic r" i, OF this] Star.prems(2) show ?case by simp
next
  case (Plus r)
  have k: "\<And>st m. m \<in> set (rmatch ic r st) \<Longrightarrow> map_of (snd m) i = map_of (snd st) i"
    using Plus.IH Plus.prems(1) by simp
  from Plus.prems(2) obtain st1 where 1: "st1 \<in> set (rmatch ic r st)"
    and 2: "m \<in> set (star_iter (length (fst st1)) (rmatch ic r) st1)" by auto
  from star_iter_keeps [of "rmatch ic r" i, OF k 2] k [OF 1] show ?case by simp
next
  case (Times n r)
  have "\<And>st m. m \<in> set (rmatch ic r st) \<Longrightarrow> map_of (snd m) i = map_of (snd st) i"
    using Times.IH Times.prems(1) by simp
  from iter_n_keeps [of "rmatch ic r" i, OF this] Times.prems(2) show ?case by simp
next
  case (Grp j r)
  from Grp.prems obtain st1 where "st1 \<in> set (rmatch ic r st)"
    and "snd m = (j, take (length (fst st) - length (fst st1)) (fst st)) # snd st1" by auto
  with Grp.IH [of st1 st] Grp.prems(1) show ?case by simp
qed (auto dest: one_char_keeps)

lemma mem_seqs_Cons:
  "m \<in> set (rmatch ic (seqs (r # rs)) st) \<longleftrightarrow>
     (\<exists>st1 \<in> set (rmatch ic r st). m \<in> set (rmatch ic (seqs rs) st1))"
  by (auto simp: seqs_def)

lemma grps_seqs: "grps (seqs rs) = (\<Union>r \<in> set rs. grps r)"
  by (induction rs) (simp_all add: seqs_def)

lemma grps_word: "grps (word w) = {}"
  by (simp add: word_def grps_seqs)

lemma grps_bs_d: "grps (bs_d n) = {}"
  by (simp add: bs_d_def)

lemma bs_d_group:
  assumes "st2 \<in> set (rmatch False (Grp 1 (bs_d 4)) st1)"
  shows "map_of (snd st2) 1 = Some (backslash # ''dddd'')"
  using assms
  by (cases st1)
     (auto simp: bs_d_def one_char_def lit_ok_def eval_nat_numeral split: list.splits if_splits)

lemma juno_group1:
  assumes "m \<in> set (rmatch False EARLIEST_RE_juno st)"
  shows "group m 1 = Some (backslash # ''dddd'')"
proof -
  from assms obtain st7 st8 where g: "st8 \<in> set (rmatch False (Grp 1 (bs_d 4)) st7)"
    and r: "m \<in> set (rmatch False
        (seqs [Lit CHR ''-'', Grp 2 (Times 3 (Cls ascii_upper)), Lit CHR ''-'',
           Grp 3 (bs_d 2), Lit CHR '' '', Grp 4 (bs_d 2), Lit CHR '':'', Grp 5 (bs_d 2),
           Lit CHR '':'', Grp 6 (bs_d 2),
           Opt (seqs [Lit backslash, Dot, Grp 7 (Seq (Lit backslash) (Plus (Lit CHR ''d'')))]),
           word '' UT'']) st8)"
    unfolding EARLIEST_RE_juno_def mem_seqs_Cons by blast
  have "1 \<notin> grps (seqs [Lit CHR ''-'', Grp 2 (Times 3 (Cls ascii_upper)), Lit CHR ''-'',
           Grp 3 (bs_d 2), Lit CHR '' '', Grp 4 (bs_d 2), Lit CHR '':'', Grp 5 (bs_d 2),
           Lit CHR '':'', Grp 6 (bs_d 2),
           Opt (seqs [Lit backslash, Dot, Grp 7 (Seq (Lit backslash) (Plus (Lit CHR ''d'')))]),
           word '' UT''])"
    by (simp add: grps_seqs grps_word grps_bs_d)
  from rmatch_keeps [OF this r] bs_d_group [OF g] show ?thesis by (simp add: group_def)
qed

lemma re_search_mem: "re_search ic r s = Some m \<Longrightarrow> \<exists>s'. m \<in> set (rmatch ic r (s', []))"
proof (induction s)
  case Nil
  then have "m \<in> set (rmatch ic r ([], []))" by (auto split: list.splits)
  then show ?case by blast
next
  case (Cons c s)
  show ?case
  proof (cases "rmatch ic r (c # s, [])")
    case Nil
    with Cons show ?thesis by simp
  next
    case (Cons m' ms)
    with Cons.prems have "m \<in> set (rmatch ic r (c # s, []))" by simp
    then show ?thesis by blast
  qed
qed

lemma py_int_backslash: "py_int (backslash # ''dddd'') = None"
  by code_simp

lemma juno_never_boundary:
  "parse_earliest_from_error_juno err = Inr None
   \<or> parse_earliest_from_error_juno err
       = Inl (ValueError (''invalid literal for int() with base 10: '' @ backslash # ''dddd''))"
proof (cases "re_search False EARLIEST_RE_juno err")
  case None
  then show ?thesis by (simp add: parse_earliest_from_error_juno_def)
next
  case (Some m)
  from re_search_mem [OF Some] juno_group1 have "group m 1 = Some (backslash # ''dddd'')" by blast
  then show ?thesis using Some
    by (simp add: parse_earliest_from_error_juno_def int_or_raise_def py_int_backslash)
qed


lemma maybe_clip_id: "maybe_clip_to_horizons_limits et s e = Inr (s, e)"
  by (simp add: maybe_clip_to_horizons_limits_def limit_time_def parse_horizons_ad_time_def
      split: option.splits)

lemma once_eq:
  "horizons_vectors_once svc k a b =
     (case svc k a b of
        Failed last_error \<Rightarrow> Inl (RuntimeError (''Horizons request failed: '' @ last_error))
      | NotADict \<Rightarrow> Inl (OtherError ''AttributeError: get'')
      | ErrorReply err \<Rightarrow>
          (case parse_earliest_from_error_juno err of
             Inl ex \<Rightarrow> Inl ex
           | Inr (Some earliest) \<Rightarrow> Inl (StartTooEarly (timestamp earliest) err)
           | Inr None \<Rightarrow> Inl (RuntimeError err))
      | NoResult \<Rightarrow> Inl (RuntimeError ''Missing result field.'')
      | NoBlock res \<Rightarrow> Inl (extract_block_error res)
      | Block p rows sg \<Rightarrow>
          (case parse_guard p rows of
             Inl ex \<Rightarrow> Inl ex
           | Inr (t, pv) \<Rightarrow> Inr (t, pv, sg)))"
  by (simp add: horizons_vectors_once_def horizons_vectors_once_with.simps [of True] maybe_clip_id
      split: response.splits)

lemma guard_not_early: "parse_guard p rows \<noteq> Inl (StartTooEarly d m)"
  by (simp add: parse_guard_def split: prod.splits)

lemma once_not_early: "horizons_vectors_once svc k a b \<noteq> Inl (StartTooEarly d m)"
proof (cases "svc k a b")
  case (ErrorReply err)
  with juno_never_boundary [of err] show ?thesis by (auto simp: once_eq)
next
  case (Block p rows sg)
  with guard_not_early [of p rows d m] show ?thesis
    by (auto simp: once_eq split: sum.splits prod.splits)
qed (simp_all add: once_eq extract_block_error_def)

lemma once_Inr:
  "horizons_vectors_once svc k a b = Inr (t, pv, s) \<longleftrightarrow>
     (\<exists>p. svc k a b = Block p (t, pv) s \<and> \<not> too_few t pv)"
proof (cases "svc k a b")
  case (ErrorReply err)
  then show ?thesis by (simp add: once_eq split: sum.splits option.splits)
next
  case (Block p rows sg)
  then show ?thesis
    by (cases rows) (auto simp: once_eq parse_guard_def split: sum.splits prod.splits if_splits)
qed (simp_all add: once_eq)

lemma once_block:
  "svc k a b = Block p rows s \<Longrightarrow>
   horizons_vectors_once svc k a b =
     (if too_few (fst rows) (snd rows) then Inl (too_few_error p)
      else Inr (fst rows, snd rows, s))"
  by (cases rows) (simp add: once_eq parse_guard_def too_few_error_def)

section \<open>Properties of the window loops\<close>

lemma window_stop:
  "(if c + sp > stop then stop else c + sp) = min (c + sp) (stop :: int)"
  by simp

lemma body_eq:
  "chunk_body_juno svc sp stop st =
     (case horizons_vectors_once svc (calls st) (start_dt st) (min (start_dt st + sp) stop) of
        Inl ex \<Rightarrow> Inl (Inl ex)
      | Inr (t, pv, s) \<Rightarrow>
          if min (start_dt st + sp) stop = start_dt st
          then Inl (chunk_finish (chunk_merge st t pv s))
          else Inr ((chunk_merge st t pv s)\<lparr>start_dt := min (start_dt st + sp) stop\<rparr>))"
proof (cases "horizons_vectors_once svc (calls st) (start_dt st) (min (start_dt st + sp) stop)")
  case (Inl ex)
  then show ?thesis using once_not_early [of svc "calls st" "start_dt st" "min (start_dt st + sp) stop"]
    unfolding chunk_body_juno_def window_stop by (cases ex) (simp_all add: Let_def)
next
  case (Inr x)
  then show ?thesis unfolding chunk_body_juno_def window_stop
    by (cases x) (simp add: Let_def)
qed

lemma body_pos:
  assumes "0 < sp" "start_dt st < stop"
  shows "chunk_body_juno svc sp stop st =
     (case horizons_vectors_once svc (calls st) (start_dt st) (min (start_dt st + sp) stop) of
        Inl ex \<Rightarrow> Inl (Inl ex)
      | Inr (t, pv, s) \<Rightarrow> Inr ((chunk_merge st t pv s)\<lparr>start_dt := min (start_dt st + sp) stop\<rparr>))"
proof -
  have "min (start_dt st + sp) stop \<noteq> start_dt st" using assms by simp
  then show ?thesis unfolding body_eq by (simp split: sum.splits prod.splits)
qed

lemma calls_merge: "calls (chunk_merge st t pv s) = Suc (calls st)"
  by (simp add: chunk_merge_def split: prod.splits)

lemma start_merge: "start_dt (chunk_merge st t pv s) = start_dt st"
  by (simp add: chunk_merge_def split: prod.splits)








lemma span_pos: "0 < step \<Longrightarrow> 0 < step * (MAX_SAMPLES_PER_CALL - 1)"
  by (simp add: MAX_SAMPLES_PER_CALL_def)



section \<open>The window loop against a service that delivers the grid\<close>

lemma filter_ge_upt: "i \<le> n \<Longrightarrow> filter (\<lambda>k. i \<le> k) [0..<n] = [i..<n]"
proof (induction n)
  case 0
  then show ?case by simp
next
  case (Suc n)
  show ?case
  proof (cases "i \<le> n")
    case True
    with Suc show ?thesis by simp
  next
    case False
    with Suc.prems have "i = Suc n" by simp
    then show ?thesis by (simp add: filter_empty_conv)
  qed
qed

lemma grid_on:
  assumes "0 < step" "a = g0 + int i * step" "a \<le> b"
  shows "grid g0 step a b = gidx g0 step i (nat ((b - g0) div step + 1))"
proof -
  let ?n = "nat ((b - g0) div step + 1)"
  have "int i * step \<le> b - g0" using assms by simp
  from zdiv_mono1 [OF this assms(1)] have "int i \<le> (b - g0) div step"
    using assms(1) by simp
  then have le: "i \<le> ?n" by linarith
  have eq: "(\<lambda>k. a \<le> g0 + int k * step) = (\<lambda>k. i \<le> k)"
    using assms(1,2) by (auto simp: fun_eq_iff)
  have "grid g0 step a b = map (\<lambda>k. g0 + int k * step) (filter (\<lambda>k. a \<le> g0 + int k * step) [0..<?n])"
    by (simp add: grid_def filter_map o_def)
  then show ?thesis using filter_ge_upt [OF le] eq by (simp add: gidx_def)
qed


lemma gidx_Cons: "i < n \<Longrightarrow> gidx g0 step i n = (g0 + int i * step) # gidx g0 step (Suc i) n"
  by (simp add: gidx_def upt_conv_Cons)

lemma gidx_append: "i \<le> j \<Longrightarrow> j \<le> n \<Longrightarrow> gidx g0 step i j @ gidx g0 step j n = gidx g0 step i n"
  unfolding gidx_def map_append [symmetric]
  by (metis le_Suc_ex upt_add_eq_append)

lemma length_gidx: "length (gidx g0 step i n) = n - i"
  by (simp add: gidx_def)

lemma gidx_snoc: "i \<le> n \<Longrightarrow> gidx g0 step i (Suc n) = gidx g0 step i n @ [g0 + int n * step]"
  by (simp add: gidx_def)

lemma length_flat6: "length (flat6 v) = 6"
  by (simp add: flat6_def split: prod.splits)

lemma length_rows: "length (snd (grid_rows vec gs)) = length (fst (grid_rows vec gs)) * 6"
  by (induction gs) (simp_all add: grid_rows_def length_flat6)

lemma too_few_rows:
  "too_few (fst (grid_rows vec gs)) (snd (grid_rows vec gs)) \<longleftrightarrow> length gs < 2"
  using length_rows [of vec gs] by (simp add: too_few_def) (simp add: grid_rows_def)

lemma grid_rows_append:
  "grid_rows vec (xs @ ys) =
     (fst (grid_rows vec xs) @ fst (grid_rows vec ys), snd (grid_rows vec xs) @ snd (grid_rows vec ys))"
  by (simp add: grid_rows_def)

lemma jd_gap: "0 < step \<Longrightarrow> jd_of g + TOL < jd_of (g + step)"
proof -
  assume "0 < step"
  then have "1 \<le> real_of_int step" by simp
  then have "(1 :: real) / 86400 \<le> real_of_int step / 86400" by (simp add: divide_right_mono)
  moreover have "TOL < 1 / 86400" by (simp add: TOL_def)
  ultimately show ?thesis by (simp add: jd_of_def add_divide_distrib)
qed

lemma stitch_juno_grid:
  assumes step: "0 < step" and n: "Suc i < n"
  shows "stitch_juno (grid_rows vec (gidx g0 step 0 (Suc i))) (grid_rows vec (gidx g0 step i n))
       = grid_rows vec (gidx g0 step 0 n)"
proof -
  let ?x = "g0 + int i * step"
  let ?P = "\<lambda>x. x \<le> jd_of ?x + TOL"
  let ?acc = "gidx g0 step 0 (Suc i)"
  let ?rest = "gidx g0 step (Suc (Suc i)) n"
  have w: "gidx g0 step i n = ?x # (?x + step) # ?rest"
    using n by (simp add: gidx_Cons algebra_simps)
  have acc: "?acc = gidx g0 step 0 i @ [?x]" by (simp add: gidx_snoc)
  have ne: "fst (grid_rows vec ?acc) \<noteq> []" by (simp add: acc grid_rows_def)
  have lst: "last (fst (grid_rows vec ?acc)) = jd_of ?x" by (simp add: acc grid_rows_def)
  have dw: "dropWhile ?P (fst (grid_rows vec (gidx g0 step i n))) = map jd_of ((?x + step) # ?rest)"
    using jd_gap [OF step, of ?x] TOL_pos by (simp add: w grid_rows_def)
  have tw: "takeWhile ?P (fst (grid_rows vec (gidx g0 step i n))) = [jd_of ?x]"
    using jd_gap [OF step, of ?x] TOL_pos by (simp add: w grid_rows_def)
  have all: "gidx g0 step 0 n = ?acc @ (?x + step) # ?rest"
  proof -
    have "gidx g0 step 0 n = ?acc @ gidx g0 step (Suc i) n"
      using n by (simp add: gidx_append)
    also have "gidx g0 step (Suc i) n = (?x + step) # ?rest"
      using n by (simp add: gidx_Cons algebra_simps)
    finally show ?thesis .
  qed
  obtain ta pa where a: "grid_rows vec ?acc = (ta, pa)" by (cases "grid_rows vec ?acc")
  obtain wt wp where ww: "grid_rows vec (gidx g0 step i n) = (wt, wp)"
    by (cases "grid_rows vec (gidx g0 step i n)")
  have wp: "drop 6 wp = snd (grid_rows vec ((?x + step) # ?rest))"
    using ww length_flat6 [of "vec ?x"] by (auto simp: w grid_rows_def)
  have ta: "ta \<noteq> []" and lta: "last ta = jd_of ?x" using ne lst a by simp_all
  have dq: "dropWhile (\<lambda>x. x \<le> last ta + TOL) wt = map jd_of ((?x + step) # ?rest)"
    using dw ww lta by simp
  have tq: "takeWhile (\<lambda>x. x \<le> last ta + TOL) wt = [jd_of ?x]"
    using tw ww lta by simp
  have "stitch_juno (ta, pa) (wt, wp) = (ta @ map jd_of ((?x + step) # ?rest), pa @ drop 6 wp)"
    unfolding stitch_juno_dropWhile [OF ta] dq tq by simp
  also have "\<dots> = grid_rows vec (gidx g0 step 0 n)"
    using a wp unfolding all grid_rows_append by (simp add: grid_rows_def)
  finally show ?thesis by (simp add: a ww)
qed

lemma step_le_span: "0 < step \<Longrightarrow> step \<le> step * (MAX_SAMPLES_PER_CALL - 1)"
  by (simp add: MAX_SAMPLES_PER_CALL_def)

lemma on_span_on_step:
  "g0 + int q * (step * (MAX_SAMPLES_PER_CALL - 1)) = g0 + int (q * 1999) * step"
  by (simp add: MAX_SAMPLES_PER_CALL_def)

lemma grid_count:
  assumes "0 < step" "c = g0 + int i * step" "c \<le> b"
  shows "nat ((b - g0) div step + 1) = Suc i + nat ((b - c) div step)"
proof -
  have "b - g0 = (b - c) + int i * step" using assms(2) by simp
  then have "(b - g0) div step = ((b - c) + int i * step) div step"
    by (simp only:)
  also have "\<dots> = (b - c) div step + int i"
    using assms(1) by simp
  finally have "(b - g0) div step = (b - c) div step + int i" .
  moreover have "0 \<le> (b - c) div step"
    using assms(1,3) by (simp add: pos_imp_zdiv_nonneg_iff)
  ultimately show ?thesis by linarith
qed

lemma div_zero_iff_small:
  fixes d step :: int
  assumes "0 < step" "0 \<le> d"
  shows "nat (d div step) = 0 \<longleftrightarrow> d < step"
proof
  assume "nat (d div step) = 0"
  then have "d div step \<le> 0" by simp
  moreover have "0 \<le> d div step" using assms by (simp add: pos_imp_zdiv_nonneg_iff)
  ultimately have "d div step = 0" by simp
  then show "d < step" using assms
    by (metis div_pos_pos_trivial linorder_not_less mult_zero_right pos_mod_bound
        mult_div_mod_eq add_0)
next
  assume "d < step"
  then show "nat (d div step) = 0" using assms by (simp add: div_pos_pos_trivial)
qed

lemma mod_last_window:
  fixes g0 c stop span :: int
  assumes "c = g0 + int q * span" "c < stop" "stop < c + span"
  shows "(stop - g0) mod span = stop - c"
proof -
  have "stop - g0 = (stop - c) + int q * span" using assms(1) by simp
  then have "(stop - g0) mod span = ((stop - c) + int q * span) mod span"
    by (simp only:)
  also have "\<dots> = (stop - c) mod span" by simp
  finally show ?thesis using assms(2,3) by (simp add: mod_pos_pos_trivial)
qed

lemma mod_full_window:
  fixes g0 c stop span :: int
  assumes "c = g0 + int q * span" "stop = c + span"
  shows "(stop - g0) mod span = 0"
proof -
  have "stop - g0 = (int q + 1) * span" using assms by (simp add: algebra_simps)
  then show ?thesis by simp
qed

lemma finish_rows:
  assumes "(all_t st, all_pv st) = grid_rows vec gs" "2 \<le> length gs"
  shows "chunk_finish st = Inr (fst (grid_rows vec gs), snd (grid_rows vec gs), sig_any st)"
proof -
  have a: "all_t st = fst (grid_rows vec gs)" "all_pv st = snd (grid_rows vec gs)"
    using assms(1) by (metis fst_conv, metis snd_conv)
  have "length (fst (grid_rows vec gs)) = length gs" by (simp add: grid_rows_def)
  then show ?thesis using assms(2) length_rows [of vec gs]
    by (simp add: chunk_finish_def a)
qed

lemma merge_grid:
  assumes "0 < step" "(all_t st, all_pv st) = grid_rows vec (gidx g0 step 0 (Suc i))" "Suc i < n"
  shows "chunk_merge st (fst (grid_rows vec (gidx g0 step i n))) (snd (grid_rows vec (gidx g0 step i n))) s
       = st\<lparr>all_t := fst (grid_rows vec (gidx g0 step 0 n)),
             all_pv := snd (grid_rows vec (gidx g0 step 0 n)),
             sig_any := sig_any st, calls := Suc (calls st)\<rparr>"
proof -
  have "all_t st = fst (grid_rows vec (gidx g0 step 0 (Suc i)))"
    using assms(2) by (metis fst_conv)
  then have ne: "all_t st \<noteq> []" by (simp add: grid_rows_def gidx_def)
  have "stitch_juno (all_t st, all_pv st) (grid_rows vec (gidx g0 step i n))
      = grid_rows vec (gidx g0 step 0 n)"
    unfolding assms(2) by (rule stitch_juno_grid [OF assms(1,3)])
  then show ?thesis using ne by (simp add: chunk_merge_def split: prod.splits)
qed

lemma merge_first:
  "all_t st = [] \<Longrightarrow> sig_any st = None \<Longrightarrow>
   chunk_merge st t pv s = st\<lparr>all_t := t, all_pv := pv, sig_any := Some s, calls := Suc (calls st)\<rparr>"
  by (simp add: chunk_merge_def stitch_juno_def)

lemma full_grid:
  "0 < step \<Longrightarrow> g0 \<le> stop \<Longrightarrow> grid g0 step g0 stop = gidx g0 step 0 (nat ((stop - g0) div step + 1))"
  using grid_on [of step g0 g0 0 stop] by simp


lemma once_other:
  assumes "\<And>p rows s. svc k a b \<noteq> Block p rows s"
  shows "\<exists>ex. horizons_vectors_once svc k a b = Inl ex"
  using assms by (cases "svc k a b") (auto simp: once_eq split: sum.splits option.splits)

lemma loop_err:
  assumes "0 < sp" "start_dt st < stop"
    "horizons_vectors_once svc (calls st) (start_dt st) (min (start_dt st + sp) stop) = Inl ex"
  shows "chunk_loop_juno svc sp stop st = Some (Inl ex)"
  using assms(2,3) body_pos [OF assms(1,2), of svc]
  by (subst chunk_loop_juno.simps) simp

lemma loop_next:
  assumes "0 < sp" "start_dt st < stop"
    "horizons_vectors_once svc (calls st) (start_dt st) (min (start_dt st + sp) stop) = Inr (t, pv, s)"
  shows "chunk_loop_juno svc sp stop st
       = chunk_loop_juno svc sp stop ((chunk_merge st t pv s)\<lparr>start_dt := min (start_dt st + sp) stop\<rparr>)"
  using assms(2,3) body_pos [OF assms(1,2), of svc]
  by (subst chunk_loop_juno.simps) simp

lemma chunk_loop_inv:
  fixes st :: "'sg chunk_state" and step g0 stop :: int and vec :: "int \<Rightarrow> vec6"
  defines "sp \<equiv> step * (MAX_SAMPLES_PER_CALL - 1)"
  defines "rm \<equiv> (stop - g0) mod sp"
  defines "full \<equiv> grid_rows vec (grid g0 step g0 stop)"
  assumes step: "0 < step"
    and dg: "delivers_grid svc g0 step vec"
    and c: "start_dt st = c" "c \<le> stop" "step \<le> c - g0"
    and ong: "c < stop \<Longrightarrow> \<exists>q. c = g0 + int q * sp"
    and fin: "c = stop \<Longrightarrow> \<not> (0 < rm \<and> rm < step)"
    and acc: "(all_t st, all_pv st) = grid_rows vec (gidx g0 step 0 (nat ((c - g0) div step + 1)))"
    and sg: "sig_any st = Some s0"
  shows "\<exists>r. chunk_loop_juno svc sp stop st = Some r
     \<and> (isl r \<or> r = Inr (fst full, snd full, Some s0))
     \<and> ((\<forall>k a b. g0 \<le> a \<longrightarrow>
            svc k a b = Block (pre a b) (grid_rows vec (grid g0 step a b)) (sg a b)) \<longrightarrow>
          r = (if 0 < rm \<and> rm < step then Inl (too_few_error (pre (stop - rm) stop))
               else Inr (fst full, snd full, Some s0)))"
  using c ong fin acc sg
proof (induction "nat (stop - c)" arbitrary: st c rule: less_induct)
  case less
  have sp_pos: "0 < sp" and step_sp: "step \<le> sp"
    using step span_pos [of step] step_le_span [of step] by (simp_all add: sp_def)
  have g0c: "g0 \<le> c" using less.prems(3) step by simp
  show ?case
  proof (cases "c < stop")
    case False
    then have cs: "c = stop" using less.prems(2) by simp
    have loop: "chunk_loop_juno svc sp stop st = Some (chunk_finish st)"
      using cs less.prems(1) by (subst chunk_loop_juno.simps) simp
    have "1 \<le> (c - g0) div step"
      using zdiv_mono1 [OF less.prems(3) step] step by simp
    then have two: "2 \<le> length (gidx g0 step 0 (nat ((c - g0) div step + 1)))"
      by (simp add: length_gidx)
    have fullc: "full = grid_rows vec (gidx g0 step 0 (nat ((c - g0) div step + 1)))"
      using full_grid [OF step, of g0 stop] g0c cs by (simp add: full_def)
    have "chunk_finish st = Inr (fst full, snd full, Some s0)"
      using finish_rows [OF less.prems(6) two] less.prems(7) by (simp add: fullc)
    then show ?thesis using loop less.prems(5) [OF cs] by auto
  next
    case True
    then obtain q where q: "c = g0 + int q * sp" using less.prems(4) by blast
    define i where "i = q * 1999"
    have ci: "c = g0 + int i * step"
      using q on_span_on_step [of g0 q step] by (simp add: i_def sp_def)
    define cs where "cs = min (start_dt st + sp) stop"
    have cs_alt: "cs = (if c + sp > stop then stop else c + sp)"
      by (simp add: cs_def less.prems(1))
    have cs_gt: "c < cs" and cs_le: "cs \<le> stop"
      using True sp_pos by (simp_all add: cs_alt)
    have cnt: "nat ((cs - g0) div step + 1) = Suc i + nat ((cs - c) div step)"
      using grid_count [OF step ci, of cs] cs_gt by simp
    have gc: "grid g0 step c cs = gidx g0 step i (Suc i + nat ((cs - c) div step))"
      using grid_on [OF step ci, of cs] cs_gt cnt by simp
    have acc_i: "nat ((c - g0) div step + 1) = Suc i"
      using step by (simp add: ci)
    have lt: "start_dt st < stop" using True less.prems(1) by simp
    show ?thesis
    proof (cases "\<exists>p rows s. svc (calls st) c cs = Block p rows s")
      case False
      then obtain ex where "horizons_vectors_once svc (calls st) c cs = Inl ex"
        using once_other [of svc "calls st" c cs] by blast
      then have "chunk_loop_juno svc sp stop st = Some (Inl ex)"
        using loop_err [OF sp_pos lt, of svc ex] by (simp add: cs_def less.prems(1))
      moreover define ok where
        "ok \<longleftrightarrow> (\<forall>k a b. g0 \<le> a \<longrightarrow>
            svc k a b = Block (pre a b) (grid_rows vec (grid g0 step a b)) (sg a b))"
      moreover have "\<not> ok" unfolding ok_def using False g0c by blast
      ultimately have "\<exists>r. chunk_loop_juno svc sp stop st = Some r
         \<and> (isl r \<or> r = Inr (fst full, snd full, Some s0))
         \<and> (ok \<longrightarrow>
              r = (if 0 < rm \<and> rm < step then Inl (too_few_error (pre (stop - rm) stop))
                   else Inr (fst full, snd full, Some s0)))"
        by simp
      then show ?thesis unfolding ok_def .
    next
      case blk: True
      then obtain p rows s where b: "svc (calls st) c cs = Block p rows s" by blast
      have rows: "rows = grid_rows vec (grid g0 step c cs)"
        using dg b unfolding delivers_grid_def by blast
      have once: "horizons_vectors_once svc (calls st) c cs =
          (if length (grid g0 step c cs) < 2 then Inl (too_few_error p)
           else Inr (fst (grid_rows vec (grid g0 step c cs)), snd (grid_rows vec (grid g0 step c cs)), s))"
        unfolding once_block [of svc "calls st" c cs p rows s, OF b] rows too_few_rows by simp
      have pok: "p = pre c cs"
        if "\<forall>k a b. g0 \<le> a \<longrightarrow> svc k a b = Block (pre a b) (grid_rows vec (grid g0 step a b)) (sg a b)"
        using that b g0c by simp
      show ?thesis
      proof (cases "cs - c < step")
        case short: True
        then have z: "nat ((cs - c) div step) = 0"
          using div_zero_iff_small [OF step, of "cs - c"] cs_gt by simp
        have len: "length (grid g0 step c cs) < 2"
          by (simp add: gc length_gidx z)
        have "horizons_vectors_once svc (calls st) c cs = Inl (too_few_error p)"
          using once len by simp
        then have loop: "chunk_loop_juno svc sp stop st = Some (Inl (too_few_error p))"
          using loop_err [OF sp_pos lt, of svc "too_few_error p"] by (simp add: cs_def less.prems(1))
        have cs_stop: "cs = stop"
          using short step_sp by (simp add: cs_alt split: if_splits)
        have lt2: "stop < c + sp" using short step_sp cs_stop by simp
        have rm: "rm = stop - c"
          unfolding rm_def by (rule mod_last_window [OF q True lt2])
        have "0 < rm \<and> rm < step" using rm True short cs_stop by simp
        moreover have "stop - rm = c" using rm by simp
        ultimately show ?thesis using loop cs_stop pok by auto
      next
        case long: False
        then have pos: "0 < nat ((cs - c) div step)"
          using div_zero_iff_small [OF step, of "cs - c"] cs_gt by simp
        have len: "\<not> length (grid g0 step c cs) < 2"
          using pos by (simp add: gc length_gidx)
        define n where "n = Suc i + nat ((cs - c) div step)"
        have n: "Suc i < n" using pos by (simp add: n_def)
        define st' where "st' = st\<lparr>all_t := fst (grid_rows vec (gidx g0 step 0 n)),
             all_pv := snd (grid_rows vec (gidx g0 step 0 n)),
             sig_any := sig_any st, calls := Suc (calls st), start_dt := cs\<rparr>"
        have acc': "(all_t st, all_pv st) = grid_rows vec (gidx g0 step 0 (Suc i))"
          using less.prems(6) acc_i by simp
        have gc': "grid g0 step c cs = gidx g0 step i n"
          by (simp add: gc n_def)
        have "horizons_vectors_once svc (calls st) c cs
            = Inr (fst (grid_rows vec (gidx g0 step i n)), snd (grid_rows vec (gidx g0 step i n)), s)"
          using once len by (simp add: gc')
        then have o: "horizons_vectors_once svc (calls st) (start_dt st) (min (start_dt st + sp) stop)
            = Inr (fst (grid_rows vec (gidx g0 step i n)), snd (grid_rows vec (gidx g0 step i n)), s)"
          unfolding cs_def less.prems(1) .
        have loop: "chunk_loop_juno svc sp stop st = chunk_loop_juno svc sp stop st'"
          unfolding loop_next [OF sp_pos lt o] merge_grid [OF step acc' n]
          by (simp add: st'_def cs_def)
        have m: "nat (stop - cs) < nat (stop - c)" using cs_gt cs_le by simp
        have p1: "start_dt st' = cs" by (simp add: st'_def)
        have p3: "step \<le> cs - g0" using less.prems(3) cs_gt by simp
        have p4: "cs < stop \<Longrightarrow> \<exists>q. cs = g0 + int q * sp"
        proof -
          assume "cs < stop"
          then have "cs = c + sp" by (simp add: cs_alt split: if_splits)
          then have "cs = g0 + int (Suc q) * sp" using q by (simp add: algebra_simps)
          then show ?thesis by blast
        qed
        have p5: "cs = stop \<Longrightarrow> \<not> (0 < rm \<and> rm < step)"
        proof -
          assume e: "cs = stop"
          show ?thesis
          proof (cases "stop = c + sp")
            case True
            then have "rm = 0" unfolding rm_def by (rule mod_full_window [OF q])
            then show ?thesis by simp
          next
            case False
            then have "stop < c + sp" using e by (simp add: cs_alt split: if_splits)
            then have "rm = stop - c"
              unfolding rm_def using mod_last_window [OF q True] by simp
            then show ?thesis using long e by simp
          qed
        qed
        have p6: "(all_t st', all_pv st') = grid_rows vec (gidx g0 step 0 (nat ((cs - g0) div step + 1)))"
          by (simp add: st'_def cnt n_def)
        have p7: "sig_any st' = Some s0" using less.prems(7) by (simp add: st'_def)
        from less.hyps [OF m p1 cs_le p3 p4 p5 p6 p7]
        show ?thesis by (simp add: loop)
      qed
    qed
  qed
qed

lemma chunk_first:
  fixes st :: "'sg chunk_state" and step g0 stop :: int and vec :: "int \<Rightarrow> vec6"
    and sg :: "int \<Rightarrow> int \<Rightarrow> 'sg"
  defines "sp \<equiv> step * (MAX_SAMPLES_PER_CALL - 1)"
  defines "rm \<equiv> (stop - g0) mod sp"
  defines "full \<equiv> grid_rows vec (grid g0 step g0 stop)"
  assumes step: "0 < step"
    and dg: "delivers_grid svc g0 step vec"
    and st: "start_dt st = g0" "all_t st = []" "sig_any st = None"
    and lt: "g0 < stop"
  shows "\<exists>r. chunk_loop_juno svc sp stop st = Some r
     \<and> (isl r \<or> (\<exists>p rows s. svc (calls st) g0 (min (g0 + sp) stop) = Block p rows s
                    \<and> r = Inr (fst full, snd full, Some s)))
     \<and> ((\<forall>k a b. g0 \<le> a \<longrightarrow>
            svc k a b = Block (pre a b) (grid_rows vec (grid g0 step a b)) (sg a b)) \<longrightarrow>
          r = (if 0 < rm \<and> rm < step then Inl (too_few_error (pre (stop - rm) stop))
               else Inr (fst full, snd full, Some (sg g0 (min (g0 + sp) stop)))))"
proof -
  have sp_pos: "0 < sp" and step_sp: "step \<le> sp"
    using step span_pos [of step] step_le_span [of step] by (simp_all add: sp_def)
  define cs where "cs = min (start_dt st + sp) stop"
  have cs_alt: "cs = (if g0 + sp > stop then stop else g0 + sp)"
    by (simp add: cs_def st(1))
  have cs_min: "min (g0 + sp) stop = cs" by (simp add: cs_def st(1))
  have cs_gt: "g0 < cs" and cs_le: "cs \<le> stop"
    using lt sp_pos by (simp_all add: cs_alt)
  have q: "g0 = g0 + int 0 * sp" by simp
  have ci: "g0 = g0 + int 0 * step" by simp
  have cnt: "nat ((cs - g0) div step + 1) = Suc 0 + nat ((cs - g0) div step)"
    using grid_count [OF step ci, of cs] cs_gt by simp
  have gc: "grid g0 step g0 cs = gidx g0 step 0 (Suc 0 + nat ((cs - g0) div step))"
    using grid_on [OF step ci, of cs] cs_gt cnt by simp
  have lt': "start_dt st < stop" using lt st(1) by simp
  show ?thesis
  proof (cases "\<exists>p rows s. svc (calls st) g0 cs = Block p rows s")
    case False
    then obtain ex where "horizons_vectors_once svc (calls st) g0 cs = Inl ex"
      using once_other [of svc "calls st" g0 cs] by blast
    then have "chunk_loop_juno svc sp stop st = Some (Inl ex)"
      using loop_err [OF sp_pos lt', of svc ex] by (simp add: cs_def st(1))
    moreover define ok where
      "ok \<longleftrightarrow> (\<forall>k a b. g0 \<le> a \<longrightarrow>
          svc k a b = Block (pre a b) (grid_rows vec (grid g0 step a b)) (sg a b))"
    moreover have "\<not> ok" unfolding ok_def using False by (meson order_refl)
    ultimately have "\<exists>r. chunk_loop_juno svc sp stop st = Some r
       \<and> (isl r \<or> (\<exists>p rows s. svc (calls st) g0 cs = Block p rows s
                      \<and> r = Inr (fst full, snd full, Some s)))
       \<and> (ok \<longrightarrow>
            r = (if 0 < rm \<and> rm < step then Inl (too_few_error (pre (stop - rm) stop))
                 else Inr (fst full, snd full, Some (sg g0 cs))))"
      by simp
    then show ?thesis unfolding ok_def cs_min .
  next
    case blk: True
    then obtain p rows s where b: "svc (calls st) g0 cs = Block p rows s" by blast
    have rows: "rows = grid_rows vec (grid g0 step g0 cs)"
      using dg b unfolding delivers_grid_def by blast
    have once: "horizons_vectors_once svc (calls st) g0 cs =
        (if length (grid g0 step g0 cs) < 2 then Inl (too_few_error p)
         else Inr (fst (grid_rows vec (grid g0 step g0 cs)), snd (grid_rows vec (grid g0 step g0 cs)), s))"
      unfolding once_block [of svc "calls st" g0 cs p rows s, OF b] rows too_few_rows by simp
    have pok: "p = pre g0 cs \<and> s = sg g0 cs"
      if "\<forall>k a b. g0 \<le> a \<longrightarrow> svc k a b = Block (pre a b) (grid_rows vec (grid g0 step a b)) (sg a b)"
      using that b by simp
    show ?thesis
    proof (cases "cs - g0 < step")
      case short: True
      then have z: "nat ((cs - g0) div step) = 0"
        using div_zero_iff_small [OF step, of "cs - g0"] cs_gt by simp
      have len: "length (grid g0 step g0 cs) < 2"
        by (simp add: gc length_gidx z)
      have "horizons_vectors_once svc (calls st) g0 cs = Inl (too_few_error p)"
        using once len by simp
      then have loop: "chunk_loop_juno svc sp stop st = Some (Inl (too_few_error p))"
        using loop_err [OF sp_pos lt', of svc "too_few_error p"] by (simp add: cs_def st(1))
      have cs_stop: "cs = stop"
        using short step_sp by (simp add: cs_alt split: if_splits)
      have lt2: "stop < g0 + sp" using short step_sp cs_stop by simp
      have rm: "rm = stop - g0"
        unfolding rm_def by (rule mod_last_window [OF q lt lt2])
      have "0 < rm \<and> rm < step" using rm lt short cs_stop by simp
      moreover have "stop - rm = g0" using rm by simp
      ultimately show ?thesis unfolding cs_min using loop cs_stop pok by auto
    next
      case long: False
      then have pos: "0 < nat ((cs - g0) div step)"
        using div_zero_iff_small [OF step, of "cs - g0"] cs_gt by simp
      have len: "\<not> length (grid g0 step g0 cs) < 2"
        using pos by (simp add: gc length_gidx)
      define n where "n = Suc 0 + nat ((cs - g0) div step)"
      define st' where "st' = st\<lparr>all_t := fst (grid_rows vec (gidx g0 step 0 n)),
             all_pv := snd (grid_rows vec (gidx g0 step 0 n)),
             sig_any := Some s, calls := Suc (calls st), start_dt := cs\<rparr>"
      have gc': "grid g0 step g0 cs = gidx g0 step 0 n"
        by (simp add: gc n_def)
      have "horizons_vectors_once svc (calls st) g0 cs
          = Inr (fst (grid_rows vec (gidx g0 step 0 n)), snd (grid_rows vec (gidx g0 step 0 n)), s)"
        using once len by (simp add: gc')
      then have o: "horizons_vectors_once svc (calls st) (start_dt st) (min (start_dt st + sp) stop)
          = Inr (fst (grid_rows vec (gidx g0 step 0 n)), snd (grid_rows vec (gidx g0 step 0 n)), s)"
        unfolding cs_def st(1) .
      have loop: "chunk_loop_juno svc sp stop st = chunk_loop_juno svc sp stop st'"
        unfolding loop_next [OF sp_pos lt' o] merge_first [OF st(2,3)]
        by (simp add: st'_def cs_def)
      have p1: "start_dt st' = cs" by (simp add: st'_def)
      have p3: "step \<le> cs - g0" using long by simp
      have p4: "cs < stop \<Longrightarrow> \<exists>q. cs = g0 + int q * (step * (MAX_SAMPLES_PER_CALL - 1))"
      proof -
        assume "cs < stop"
        then have "cs = g0 + sp" by (simp add: cs_alt split: if_splits)
        then have "cs = g0 + int (Suc 0) * (step * (MAX_SAMPLES_PER_CALL - 1))"
          by (simp add: sp_def)
        then show ?thesis by blast
      qed
      have p5: "cs = stop \<Longrightarrow>
          \<not> (0 < (stop - g0) mod (step * (MAX_SAMPLES_PER_CALL - 1))
             \<and> (stop - g0) mod (step * (MAX_SAMPLES_PER_CALL - 1)) < step)"
      proof -
        assume e: "cs = stop"
        show ?thesis
        proof (cases "stop = g0 + sp")
          case True
          have "(stop - g0) mod sp = 0" by (rule mod_full_window [OF q True])
          then show ?thesis by (simp add: sp_def)
        next
          case False
          then have "stop < g0 + sp" using e by (simp add: cs_alt split: if_splits)
          then have "(stop - g0) mod sp = stop - g0"
            using mod_last_window [OF q lt] by simp
          then show ?thesis using long e by (simp add: sp_def)
        qed
      qed
      have p6: "(all_t st', all_pv st') = grid_rows vec (gidx g0 step 0 (nat ((cs - g0) div step + 1)))"
        by (simp add: st'_def cnt n_def)
      have p7: "sig_any st' = Some s" by (simp add: st'_def)
      define ok where
        "ok \<longleftrightarrow> (\<forall>k a b. g0 \<le> a \<longrightarrow>
            svc k a b = Block (pre a b) (grid_rows vec (grid g0 step a b)) (sg a b))"
      have inv: "\<exists>r. chunk_loop_juno svc sp stop st' = Some r
         \<and> (isl r \<or> r = Inr (fst full, snd full, Some s))
         \<and> (ok \<longrightarrow>
              r = (if 0 < rm \<and> rm < step then Inl (too_few_error (pre (stop - rm) stop))
                   else Inr (fst full, snd full, Some s)))"
        unfolding sp_def rm_def full_def ok_def
        using step dg p1 cs_le p3 p4 p5 p6 p7
        by (rule chunk_loop_inv [where pre = pre and sg = sg])
      have sok: "ok \<Longrightarrow> s = sg g0 cs" using pok unfolding ok_def by blast
      from inv obtain r where r: "chunk_loop_juno svc sp stop st' = Some r"
        "isl r \<or> r = Inr (fst full, snd full, Some s)"
        "ok \<longrightarrow> r = (if 0 < rm \<and> rm < step then Inl (too_few_error (pre (stop - rm) stop))
                   else Inr (fst full, snd full, Some s))"
        by blast
      have "\<exists>r. chunk_loop_juno svc sp stop st = Some r
         \<and> (isl r \<or> (\<exists>p rows s. svc (calls st) g0 cs = Block p rows s
                        \<and> r = Inr (fst full, snd full, Some s)))
         \<and> (ok \<longrightarrow>
              r = (if 0 < rm \<and> rm < step then Inl (too_few_error (pre (stop - rm) stop))
                   else Inr (fst full, snd full, Some (sg g0 cs))))"
        using r b sok loop by auto
      then show ?thesis unfolding ok_def cs_min .
    qed
  qed
qed

lemma chunked_grid:
  fixes step start stop :: int and vec :: "int \<Rightarrow> vec6" and sg :: "int \<Rightarrow> int \<Rightarrow> 'sg"
  defines "sp \<equiv> step * (MAX_SAMPLES_PER_CALL - 1)"
  defines "rm \<equiv> (stop - start) mod sp"
  defines "full \<equiv> grid_rows vec (grid start step start stop)"
  assumes step: "0 < step"
    and dg: "delivers_grid svc start step vec"
  shows "\<exists>r. horizons_vectors_chunked_juno svc step start stop = Some r
     \<and> (isl r \<or> (\<exists>p rows s. svc 0 start (min (start + sp) stop) = Block p rows s
                    \<and> r = Inr (fst full, snd full, Some s)))
     \<and> ((\<forall>k a b. start \<le> a \<longrightarrow>
            svc k a b = Block (pre a b) (grid_rows vec (grid start step a b)) (sg a b))
         \<and> start < stop \<longrightarrow>
          r = (if 0 < rm \<and> rm < step then Inl (too_few_error (pre (stop - rm) stop))
               else Inr (fst full, snd full, Some (sg start (min (start + sp) stop)))))"
proof (cases "start < stop")
  case False
  let ?st0 = "chunk_init start :: 'sg chunk_state"
  have "chunk_loop_juno svc sp stop ?st0 = Some (chunk_finish ?st0)"
    using False by (subst chunk_loop_juno.simps) (simp add: chunk_init_def)
  moreover have "chunk_finish ?st0 = Inl (RuntimeError ''Chunked parse produced invalid output.'')"
    by (simp add: chunk_finish_def chunk_init_def)
  ultimately show ?thesis using False
    by (simp add: horizons_vectors_chunked_juno_def sp_def)
next
  case True
  let ?st0 = "chunk_init start :: 'sg chunk_state"
  have c0: "calls ?st0 = 0" by (simp add: chunk_init_def)
  have "\<exists>r. chunk_loop_juno svc (step * (MAX_SAMPLES_PER_CALL - 1)) stop ?st0 = Some r
     \<and> (isl r \<or> (\<exists>p rows s. svc (calls ?st0) start (min (start + step * (MAX_SAMPLES_PER_CALL - 1)) stop) = Block p rows s
                    \<and> r = Inr (fst (grid_rows vec (grid start step start stop)),
                              snd (grid_rows vec (grid start step start stop)), Some s)))
     \<and> ((\<forall>k a b. start \<le> a \<longrightarrow>
            svc k a b = Block (pre a b) (grid_rows vec (grid start step a b)) (sg a b)) \<longrightarrow>
          r = (if 0 < (stop - start) mod (step * (MAX_SAMPLES_PER_CALL - 1))
                  \<and> (stop - start) mod (step * (MAX_SAMPLES_PER_CALL - 1)) < step
               then Inl (too_few_error (pre (stop - (stop - start) mod (step * (MAX_SAMPLES_PER_CALL - 1))) stop))
               else Inr (fst (grid_rows vec (grid start step start stop)),
                         snd (grid_rows vec (grid start step start stop)),
                         Some (sg start (min (start + step * (MAX_SAMPLES_PER_CALL - 1)) stop)))))"
    using step dg _ _ _ True
    by (rule chunk_first [where pre = pre and sg = sg]) (simp_all add: chunk_init_def)
  then show ?thesis
    unfolding horizons_vectors_chunked_juno_def sp_def rm_def full_def c0 by blast
qed
section \<open>The claims about the chunk scheduler\<close>

lemma grid_service_delivers: "delivers_grid (grid_service fail avail msg g0 step vec pre sg) g0 step vec"
  by (auto simp: delivers_grid_def grid_service_def split: if_splits option.splits)

lemma grid_service_ok:
  "avail \<le> g0 \<Longrightarrow> g0 \<le> a \<Longrightarrow>
   grid_service (\<lambda>k. None) avail msg g0 step vec pre sg k a b
     = Block (pre a b) (grid_rows vec (grid g0 step a b)) (sg a b)"
  by (simp add: grid_service_def)

lemma once_service:
  assumes "avail \<le> a"
  shows "horizons_vectors_once (grid_service (\<lambda>k. None) avail msg g0 step vec pre sg) k a b =
     (if length (grid g0 step a b) < 2 then Inl (too_few_error (pre a b))
      else Inr (fst (grid_rows vec (grid g0 step a b)), snd (grid_rows vec (grid g0 step a b)), sg a b))"
proof -
  have "grid_service (\<lambda>k. None) avail msg g0 step vec pre sg k a b
      = Block (pre a b) (grid_rows vec (grid g0 step a b)) (sg a b)"
    using assms by (simp add: grid_service_def)
  from once_block [of "grid_service (\<lambda>k. None) avail msg g0 step vec pre sg" k a b, OF this]
  show ?thesis by (simp add: too_few_rows)
qed

lemma length_grid_whole:
  assumes "0 < step" "g0 \<le> stop"
  shows "length (grid g0 step g0 stop) = nat ((stop - g0) div step + 1)"
  using full_grid [OF assms] by (simp add: length_gidx)

lemma chunked_no_failure:
  fixes step start stop avail :: int
  defines "sp \<equiv> step * (MAX_SAMPLES_PER_CALL - 1)"
  defines "rm \<equiv> (stop - start) mod sp"
  assumes "0 < step" "avail \<le> start" "start < stop"
  shows "horizons_vectors_chunked_juno (grid_service (\<lambda>k. None) avail msg start step vec pre sg)
           step start stop
       = Some (if 0 < rm \<and> rm < step then Inl (too_few_error (pre (stop - rm) stop))
               else Inr (fst (grid_rows vec (grid start step start stop)),
                         snd (grid_rows vec (grid start step start stop)),
                         Some (sg start (min (start + sp) stop))))"
proof -
  let ?svc = "grid_service (\<lambda>k. None) avail msg start step vec pre sg"
  have ok: "\<forall>k a b. start \<le> a \<longrightarrow>
      ?svc k a b = Block (pre a b) (grid_rows vec (grid start step a b)) (sg a b)"
    using grid_service_ok [OF assms(4)] by blast
  from chunked_grid [where svc = ?svc and vec = vec and pre = pre and sg = sg and stop = stop,
      OF assms(3) grid_service_delivers]
  obtain r where r: "horizons_vectors_chunked_juno ?svc step start stop = Some r"
    and "(\<forall>k a b. start \<le> a \<longrightarrow>
             ?svc k a b = Block (pre a b) (grid_rows vec (grid start step a b)) (sg a b))
         \<and> start < stop \<longrightarrow>
          r = (if 0 < rm \<and> rm < step then Inl (too_few_error (pre (stop - rm) stop))
               else Inr (fst (grid_rows vec (grid start step start stop)),
                         snd (grid_rows vec (grid start step start stop)),
                         Some (sg start (min (start + sp) stop))))"
    unfolding sp_def rm_def by blast
  with ok assms(5) show ?thesis by simp
qed

lemma day_delivers: "delivers_grid (day_service fail) 0 86400 demo_vec"
  unfolding day_service_def by (rule grid_service_delivers)

lemma day_grid: "grid 0 86400 0 259200 = [0, 86400, 172800, 259200]"
  by (simp add: grid_def upt_rec)

lemma day_example:
  "horizons_vectors_chunked_juno (day_service (\<lambda>k. None)) 86400 0 259200
     = Some (Inr (map jd_of [0, 86400, 172800, 259200],
          [0, 0, 0, 0, 0, 0, 86400, 0, 0, 0, 0, 0, 172800, 0, 0, 0, 0, 0, 259200, 0, 0, 0, 0, 0],
          Some (0, 259200)))"
  using chunked_no_failure [of 86400 0 0 259200 "[]" demo_vec "\<lambda>a b. []" "\<lambda>a b. (a, b)"]
  by (simp add: day_service_def day_grid grid_rows_def flat6_def demo_vec_def MAX_SAMPLES_PER_CALL_def)

lemma day_failure:
  "horizons_vectors_chunked_juno (day_service (\<lambda>k. if k = 1 then Some ''timeout'' else None))
     86400 0 259113600
     = Some (Inl (RuntimeError ''Horizons request failed: timeout''))"
proof -
  let ?svc = "day_service (\<lambda>k. if k = 1 then Some ''timeout'' else None)"
  let ?rows = "grid_rows demo_vec (grid 0 86400 0 172713600)"
  let ?st0 = "chunk_init 0 :: (int \<times> int) chunk_state"
  let ?st1 = "(chunk_merge ?st0 (fst ?rows) (snd ?rows) (0, 172713600))\<lparr>start_dt := 172713600\<rparr>"
  have b0: "?svc 0 0 172713600 = Block [] ?rows (0, 172713600)"
    by (simp add: day_service_def grid_service_def)
  have len: "length (grid 0 86400 0 172713600) = 2000"
    using length_grid_whole [of 86400 0 172713600] by simp
  have o0: "horizons_vectors_once ?svc 0 0 172713600 = Inr (fst ?rows, snd ?rows, (0, 172713600))"
    using once_block [of ?svc 0 0 172713600, OF b0] len by (simp add: too_few_rows)
  have l0: "chunk_loop_juno ?svc 172713600 259113600 ?st0
      = chunk_loop_juno ?svc 172713600 259113600 ?st1"
    using loop_next [of 172713600 ?st0 259113600 ?svc "fst ?rows" "snd ?rows" "(0, 172713600)"] o0
    by (simp add: chunk_init_def)
  have o1: "horizons_vectors_once ?svc (Suc 0) 172713600 259113600
      = Inl (RuntimeError ''Horizons request failed: timeout'')"
    by (simp add: once_eq day_service_def grid_service_def)
  have l1: "chunk_loop_juno ?svc 172713600 259113600 ?st1
      = Some (Inl (RuntimeError ''Horizons request failed: timeout''))"
    using loop_err [of 172713600 ?st1 259113600 ?svc "RuntimeError ''Horizons request failed: timeout''"] o1
    by (simp add: calls_merge start_merge chunk_init_def)
  show ?thesis
    unfolding horizons_vectors_chunked_juno_def using l0 l1
    by (simp add: MAX_SAMPLES_PER_CALL_def)
qed

lemma short_run:
  "horizons_vectors_chunked_juno short_service 86400 0 864000
     = Some (Inr (map jd_of [0, 86400], [0, 0, 0, 0, 0, 0, 86400, 0, 0, 0, 0, 0], Some (0, 864000)))"
proof -
  let ?st0 = "chunk_init 0 :: (int \<times> int) chunk_state"
  let ?t = "map jd_of [0, 86400]"
  let ?pv = "[0, 0, 0, 0, 0, 0, 86400, 0, 0, 0, 0, 0] :: real list"
  let ?st1 = "(chunk_merge ?st0 ?t ?pv (0, 864000))\<lparr>start_dt := 864000\<rparr>"
  have o0: "horizons_vectors_once short_service 0 0 864000 = Inr (?t, ?pv, (0, 864000))"
    by (simp add: once_eq short_service_def parse_guard_def too_few_def grid_rows_def flat6_def
        demo_vec_def)
  have l0: "chunk_loop_juno short_service 172713600 864000 ?st0
      = chunk_loop_juno short_service 172713600 864000 ?st1"
    using loop_next [of 172713600 ?st0 864000 short_service ?t ?pv "(0, 864000)"] o0
    by (simp add: chunk_init_def)
  have l1: "chunk_loop_juno short_service 172713600 864000 ?st1 = Some (chunk_finish ?st1)"
    by (subst chunk_loop_juno.simps) (simp add: start_merge)
  have f: "chunk_finish ?st1 = Inr (?t, ?pv, Some (0, 864000))"
    by (simp add: chunk_finish_def chunk_merge_def stitch_juno_def chunk_init_def)
  show ?thesis
    unfolding horizons_vectors_chunked_juno_def using l0 l1 f
    by (simp add: MAX_SAMPLES_PER_CALL_def)
qed

lemma ten_days_grid:
  "grid 0 86400 0 864000
     = [0, 86400, 172800, 259200, 345600, 432000, 518400, 604800, 691200, 777600, 864000]"
  by (simp add: grid_def upt_rec)

text \<open>
  Claim C9 (as amended). Let the service answer every window either with a failure, an
  error or a response without a block, or else with a block that holds exactly the
  samples of the step grid anchored at \<open>start\<close> that fall in the window. Then, for a
  positive step, \<open>horizons_vectors_chunked\<close> of generate\_ephemeris\_juno.py returns,
  and its result is either an error or the complete series of the grid from \<open>start\<close> to
  \<open>stop\<close>, together with the signature of the response to the first window. The
  hypothesis on the service is needed: the function itself tests only that at least two
  samples of six components were read.
\<close>

theorem chunked_complete_or_error:
  fixes svc :: "'sg service"
  assumes "0 < step" and "delivers_grid svc start step vec"
  shows "\<exists>r. horizons_vectors_chunked_juno svc step start stop = Some r
     \<and> (isl r
        \<or> (\<exists>p rows s.
              svc 0 start (min (start + step * (MAX_SAMPLES_PER_CALL - 1)) stop) = Block p rows s
            \<and> r = Inr (fst (grid_rows vec (grid start step start stop)),
                       snd (grid_rows vec (grid start step start stop)), Some s)))"
proof -
  obtain s0 :: 'sg where "s0 = s0" by simp
  from chunked_grid [where pre = "\<lambda>a b. []" and sg = "\<lambda>a b. s0" and stop = stop, OF assms]
  show ?thesis by blast
qed

theorem chunked_complete_or_error_witness:
  "horizons_vectors_chunked_juno (day_service (\<lambda>k. None)) 86400 0 259200
     = Some (Inr (map jd_of [0, 86400, 172800, 259200],
          [0, 0, 0, 0, 0, 0, 86400, 0, 0, 0, 0, 0, 172800, 0, 0, 0, 0, 0, 259200, 0, 0, 0, 0, 0],
          Some (0, 259200)))
   \<and> horizons_vectors_chunked_juno (day_service (\<lambda>k. if k = 1 then Some ''timeout'' else None))
       86400 0 259113600
     = Some (Inl (RuntimeError ''Horizons request failed: timeout''))"
  using chunked_complete_or_error [of 86400 "day_service (\<lambda>k. None)" 0 demo_vec 259200]
    chunked_complete_or_error [of 86400 "day_service (\<lambda>k. if k = 1 then Some ''timeout'' else None)"
      0 demo_vec 259113600]
    day_delivers day_example day_failure
  by simp

text \<open>
  Against a service that answers a window of ten days with its first two samples only,
  the function returns those two samples as a success, although the grid of the range
  has eleven.
\<close>

theorem truncated_series_counterexample:
  "horizons_vectors_chunked_juno short_service 86400 0 864000
     = Some (Inr (map jd_of [0, 86400], [0, 0, 0, 0, 0, 0, 86400, 0, 0, 0, 0, 0], Some (0, 864000)))
   \<and> grid 0 86400 0 864000
     = [0, 86400, 172800, 259200, 345600, 432000, 518400, 604800, 691200, 777600, 864000]"
  using short_run ten_days_grid by simp

text \<open>
  X1. Against a service that delivers exactly the grid samples of every window, when the
  last sub-window is not shorter than one step, \<open>horizons_vectors_chunked\<close> returns the
  very timestamps and vectors that a single call over the whole range returns.
\<close>

theorem chunked_transparent:
  assumes "0 < step" "avail \<le> start" "start < stop"
    and "\<not> (0 < (stop - start) mod (step * (MAX_SAMPLES_PER_CALL - 1))
           \<and> (stop - start) mod (step * (MAX_SAMPLES_PER_CALL - 1)) < step)"
  shows "horizons_vectors_chunked_juno (grid_service (\<lambda>k. None) avail msg start step vec pre sg)
           step start stop
       = Some (Inr (fst (grid_rows vec (grid start step start stop)),
                    snd (grid_rows vec (grid start step start stop)),
                    Some (sg start (min (start + step * (MAX_SAMPLES_PER_CALL - 1)) stop))))
     \<and> horizons_vectors_once (grid_service (\<lambda>k. None) avail msg start step vec pre sg) k start stop
       = Inr (fst (grid_rows vec (grid start step start stop)),
              snd (grid_rows vec (grid start step start stop)), sg start stop)"
proof -
  let ?sp = "step * (MAX_SAMPLES_PER_CALL - 1)"
  have "step \<le> stop - start"
  proof (rule ccontr)
    assume "\<not> step \<le> stop - start"
    then have lt: "stop - start < step" by simp
    then have "stop - start < ?sp" using step_le_span [OF assms(1)] by simp
    then have "(stop - start) mod ?sp = stop - start"
      using assms(3) by (simp add: mod_pos_pos_trivial)
    then show False using assms(3,4) lt by simp
  qed
  then have "1 \<le> (stop - start) div step"
    using zdiv_mono1 [of step "stop - start" step] assms(1) by simp
  then have "\<not> length (grid start step start stop) < 2"
    using length_grid_whole [OF assms(1), of start stop] assms(3) by simp
  then have once: "horizons_vectors_once (grid_service (\<lambda>k. None) avail msg start step vec pre sg) k start stop
       = Inr (fst (grid_rows vec (grid start step start stop)),
              snd (grid_rows vec (grid start step start stop)), sg start stop)"
    using once_service [OF assms(2), of msg start step vec pre sg k stop] by simp
  show ?thesis
    using chunked_no_failure [OF assms(1,2,3), of msg vec pre sg] assms(4) once by simp
qed

theorem chunked_transparent_witness:
  "horizons_vectors_chunked_juno juno_day_service 86400 0 259113600
       = Some (Inr (fst (grid_rows demo_vec (grid 0 86400 0 259113600)),
                    snd (grid_rows demo_vec (grid 0 86400 0 259113600)),
                    Some (0, 172713600)))
   \<and> horizons_vectors_once juno_day_service 7 0 259113600
       = Inr (fst (grid_rows demo_vec (grid 0 86400 0 259113600)),
              snd (grid_rows demo_vec (grid 0 86400 0 259113600)), (0, 259113600))"
  using chunked_transparent [of 86400 0 0 259113600 "[]" demo_vec "\<lambda>a b. []" "\<lambda>a b. (a, b)" 7]
  by (simp add: juno_day_service_def MAX_SAMPLES_PER_CALL_def)

text \<open>
  Claim C1, at a failing input. With a step of one day the ceiling of 2000 samples makes
  a sub-window span 1999 days. For a range of 1999 days and one hour the second
  sub-window holds a single sample, \<open>parse_vectors\<close> rejects it, and the chunked fetch
  raises, while a single call over the whole range returns its 2000 samples.
\<close>

theorem chunked_short_final_window:
  "horizons_vectors_chunked_juno juno_day_service 86400 0 172717200
     = Some (Inl (RuntimeError (''Parsed too few samples. Preview:'' @ [CHR 0x0A])))
   \<and> horizons_vectors_once juno_day_service 0 0 172717200
     = Inr (fst (grid_rows demo_vec (grid 0 86400 0 172717200)),
            snd (grid_rows demo_vec (grid 0 86400 0 172717200)), (0, 172717200))
   \<and> length (fst (grid_rows demo_vec (grid 0 86400 0 172717200))) = 2000"
proof -
  have a: "horizons_vectors_chunked_juno juno_day_service 86400 0 172717200
     = Some (Inl (RuntimeError (''Parsed too few samples. Preview:'' @ [CHR 0x0A])))"
    using chunked_no_failure [of 86400 0 0 172717200 "[]" demo_vec "\<lambda>a b. []" "\<lambda>a b. (a, b)"]
    by (simp add: juno_day_service_def MAX_SAMPLES_PER_CALL_def too_few_error_def)
  have len: "length (grid 0 86400 0 172717200) = 2000"
    using length_grid_whole [of 86400 0 172717200] by simp
  have b: "horizons_vectors_once juno_day_service 0 0 172717200
     = Inr (fst (grid_rows demo_vec (grid 0 86400 0 172717200)),
            snd (grid_rows demo_vec (grid 0 86400 0 172717200)), (0, 172717200))"
    using once_service [of 0 0 "[]" 0 86400 demo_vec "\<lambda>a b. []" "\<lambda>a b. (a, b)" 0 172717200] len
    by (simp add: juno_day_service_def)
  show ?thesis using a b len by (simp add: grid_rows_def)
qed















text \<open>
  X3. \<open>horizons_vectors_once\<close> of generate\_ephemeris\_juno.py never raises
  \<open>StartTooEarly\<close>, and \<open>_maybe_clip_to_horizons_limits\<close> returns the window it was
  given: neither of the two ways of moving the start of a window is ever taken.
\<close>

theorem juno_never_clips:
  "horizons_vectors_once svc k a b \<noteq> Inl (StartTooEarly d m)
   \<and> maybe_clip_to_horizons_limits et start_time stop_time = Inr (start_time, stop_time)"
  using once_not_early [of svc k a b d m] maybe_clip_id [of et start_time stop_time] by simp
end
